theory Spec2Isabelle
  imports Main "HOL-Library.Word"
begin

unbundle bit_operations_syntax

section \<open>The extent index resolver of fs/erofs/unzip_vle.c\<close>

text \<open>
  The model follows the build in which \<open>DBG_BUGON\<close> expands to nothing
  (\<open>CONFIG_EROFS_FS_DEBUG\<close> off): a debug assertion leaves no branch. Where a property
  holds only for the calls that an assertion admits, the assertion's condition is a
  hypothesis of the theorem. \<open>BUG_ON\<close> and
  \<open>BUG()\<close> are branches of their own where they occur. Reference counts, page locks and
  atomic kernel mappings of the metadata page are not part of the resolver's result and
  are left out; what the resolver returns through its pointers is returned as a value.
\<close>

datatype errno = EIO | ENOMEM | EAGAIN | EBUSY | ENOTSUPP

text \<open>
  The on-disk record \<open>struct z_erofs_vle_decompressed_index\<close>: a 16-bit advise, a 16-bit
  clusterofs and a four-byte union of \<open>delta[2]\<close> and \<open>blkaddr\<close>, all little-endian, so
  \<open>delta[0]\<close> is the low half of the union.
\<close>

record z_erofs_vle_decompressed_index =
  di_advise :: "16 word"
  di_clusterofs :: "16 word"
  di_u :: "32 word"

definition di_u_delta0 :: "z_erofs_vle_decompressed_index \<Rightarrow> 16 word" where
  "di_u_delta0 di = ucast (di_u di)"

definition di_u_blkaddr :: "z_erofs_vle_decompressed_index \<Rightarrow> 32 word" where
  "di_u_blkaddr di = di_u di"

datatype vle_cluster_type =
    Z_EROFS_VLE_CLUSTER_TYPE_PLAIN
  | Z_EROFS_VLE_CLUSTER_TYPE_HEAD
  | Z_EROFS_VLE_CLUSTER_TYPE_NONHEAD
  | Z_EROFS_VLE_CLUSTER_TYPE_HUAWEI_COMPAT
  | Z_EROFS_VLE_CLUSTER_TYPE_RESERVED

datatype erofs_map_flag = EROFS_MAP_MAPPED | EROFS_MAP_META | EROFS_MAP_ZIPPED

text \<open>
  \<open>m_flags\<close> is an unsigned int of one-bit masks whose values are declared outside this
  file; it is modelled as the set of the flags that are set, so that \<open>|=\<close> is insertion,
  \<open>^=\<close> the symmetric difference and \<open>= 0\<close> the empty set.
\<close>

type_synonym m_flags_t = "erofs_map_flag set"

definition flags_xor :: "m_flags_t \<Rightarrow> erofs_map_flag \<Rightarrow> m_flags_t" where
  "flags_xor fl f = (if f \<in> fl then fl - {f} else insert f fl)"

record erofs_map_blocks =
  m_pa :: "64 word"
  m_la :: "64 word"
  m_plen :: "64 word"
  m_llen :: "64 word"
  m_flags :: m_flags_t

text \<open>
  A metadata page as the resolver sees it: its page-cache index and, for a byte offset
  into the mapped page, the index record stored there.
\<close>

record meta_page =
  index :: nat
  kaddr :: "nat \<Rightarrow> z_erofs_vle_decompressed_index"

text \<open>
  What the resolver takes from the inode, the superblock and the headers that are not in
  this file: the cluster size exponent, the inode size, whether
  \<open>CONFIG_EROFS_FS_HUAWEI_EXTENSION\<close> is compiled in, the numeric encoding of the cluster
  type inside \<open>di_advise\<close>, the byte address of the inode (\<open>iloc\<close>), the offset of the first
  index record behind it (\<open>Z_EROFS_VLE_EXTENT_ALIGN(inode_isize + xattr_isize) +
  sizeof(struct erofs_extent_header)\<close>), the block size, and the metadata reader
  \<open>erofs_get_meta_page\<close>, which returns a page or an error pointer.
\<close>

record vle_map_blocks_iter_ctx =
  clusterbits :: nat
  i_size :: "64 word"
  huawei_extension :: bool
  cluster_type_of :: "16 word \<Rightarrow> vle_cluster_type"
  iloc :: "64 word"
  extent_start :: "32 word"
  EROFS_BLKSIZ :: "64 word"
  erofs_get_meta_page :: "32 word \<Rightarrow> errno + meta_page"

definition erofs_blknr :: "vle_map_blocks_iter_ctx \<Rightarrow> 64 word \<Rightarrow> 32 word" where
  "erofs_blknr ctx addr = ucast (addr div EROFS_BLKSIZ ctx)"

definition erofs_blkoff :: "vle_map_blocks_iter_ctx \<Rightarrow> 64 word \<Rightarrow> 32 word" where
  "erofs_blkoff ctx addr = ucast (addr mod EROFS_BLKSIZ ctx)"

definition blknr_to_addr :: "vle_map_blocks_iter_ctx \<Rightarrow> 32 word \<Rightarrow> 64 word" where
  "blknr_to_addr ctx nr = ucast nr * EROFS_BLKSIZ ctx"

text \<open>\<open>unsigned ofs = ... + index * sizeof(struct z_erofs_vle_decompressed_index)\<close>, eight bytes a record.\<close>

definition vle_extent_ofs :: "vle_map_blocks_iter_ctx \<Rightarrow> 32 word \<Rightarrow> 32 word" where
  "vle_extent_ofs ctx idx = extent_start ctx + idx * 8"

definition vle_extent_blkaddr :: "vle_map_blocks_iter_ctx \<Rightarrow> 32 word \<Rightarrow> 32 word" where
  "vle_extent_blkaddr ctx idx = erofs_blknr ctx (iloc ctx + ucast (vle_extent_ofs ctx idx))"

definition vle_extent_blkoff :: "vle_map_blocks_iter_ctx \<Rightarrow> 32 word \<Rightarrow> 32 word" where
  "vle_extent_blkoff ctx idx = erofs_blkoff ctx (iloc ctx + ucast (vle_extent_ofs ctx idx))"

definition vle_cluster_advise :: "16 word \<Rightarrow> nat \<Rightarrow> nat \<Rightarrow> 32 word" where
  "vle_cluster_advise x b n = drop_bit b (ucast x) AND (push_bit n 1 - 1)"

definition vle_cluster_type ::
  "vle_map_blocks_iter_ctx \<Rightarrow> z_erofs_vle_decompressed_index \<Rightarrow> vle_cluster_type" where
  "vle_cluster_type ctx di = cluster_type_of ctx (di_advise di)"

definition clustersize_of :: "vle_map_blocks_iter_ctx \<Rightarrow> 32 word" where
  "clustersize_of ctx = push_bit (clusterbits ctx) 1"

definition vle_huawei_compat_previous_clusters ::
  "32 word \<Rightarrow> z_erofs_vle_decompressed_index \<Rightarrow> 32 word" where
  "vle_huawei_compat_previous_clusters clustersize di =
     (ucast (di_clusterofs di) div clustersize) OR
     push_bit 4 (vle_cluster_advise (di_advise di) 4 4)"

definition vle_decompressed_index_clusterofs ::
  "vle_map_blocks_iter_ctx \<Rightarrow> 32 word \<Rightarrow> z_erofs_vle_decompressed_index \<Rightarrow> errno + 32 word" where
  "vle_decompressed_index_clusterofs ctx clustersize di =
     (case vle_cluster_type ctx di of
        Z_EROFS_VLE_CLUSTER_TYPE_NONHEAD \<Rightarrow> Inr clustersize
      | Z_EROFS_VLE_CLUSTER_TYPE_HUAWEI_COMPAT \<Rightarrow>
          if huawei_extension ctx then
            (if vle_huawei_compat_previous_clusters clustersize di \<noteq> 0 then Inr clustersize
             else Inr (ucast (di_clusterofs di)))
          else Inl EIO
      | Z_EROFS_VLE_CLUSTER_TYPE_PLAIN \<Rightarrow> Inr (ucast (di_clusterofs di))
      | Z_EROFS_VLE_CLUSTER_TYPE_HEAD \<Rightarrow> Inr (ucast (di_clusterofs di))
      | Z_EROFS_VLE_CLUSTER_TYPE_RESERVED \<Rightarrow> Inl EIO)"

text \<open>
  The metadata page the head walk reads at \<open>lcn\<close>: the page it already holds when that
  page has the index of the record's block, a freshly read page otherwise.
\<close>

definition head_meta_page ::
  "vle_map_blocks_iter_ctx \<Rightarrow> meta_page \<Rightarrow> 32 word \<Rightarrow> errno + meta_page" where
  "head_meta_page ctx mpage lcn =
     (let mblk = vle_extent_blkaddr ctx lcn in
      if index mpage \<noteq> unat mblk then erofs_get_meta_page ctx mblk else Inr mpage)"

text \<open>
  The \<open>case Z_EROFS_VLE_CLUSTER_TYPE_HEAD\<close> label of the head walk: it writes \<open>*ofs\<close> and
  \<open>*pblk\<close> and returns 0.
\<close>

definition head_case_HEAD ::
  "vle_map_blocks_iter_ctx \<Rightarrow> z_erofs_vle_decompressed_index \<Rightarrow> 32 word \<Rightarrow> 64 word \<times> 32 word" where
  "head_case_HEAD ctx di lcn =
     (push_bit (clusterbits ctx) (ucast lcn) +
        ucast (ucast (di_clusterofs di) AND (clustersize_of ctx - 1)),
      di_u_blkaddr di)"

text \<open>
  \<open>vle_get_logical_extent_head\<close>. It returns the error, or \<open>*ofs\<close>, \<open>*pblk\<close> and the new
  \<open>*flags\<close>, together with the new \<open>*ctx->mpage_ret\<close> (\<open>None\<close> is \<open>NULL\<close>).
\<close>

function vle_get_logical_extent_head ::
  "vle_map_blocks_iter_ctx \<Rightarrow> meta_page \<Rightarrow> 32 word \<Rightarrow> m_flags_t \<Rightarrow>
     (errno + (64 word \<times> 32 word \<times> m_flags_t)) \<times> meta_page option" where
  "vle_get_logical_extent_head ctx mpage lcn flags =
     (case head_meta_page ctx mpage lcn of
        Inl e \<Rightarrow> (Inl e, None)
      | Inr mp \<Rightarrow>
          (let di = kaddr mp (unat (vle_extent_blkoff ctx lcn)) in
           case vle_cluster_type ctx di of
             Z_EROFS_VLE_CLUSTER_TYPE_NONHEAD \<Rightarrow>
               (let delta0 = (ucast (di_u_delta0 di) :: 32 word) in
                if delta0 = 0 \<or> delta0 > lcn then (Inl EIO, Some mp)
                else vle_get_logical_extent_head ctx mp (lcn - delta0) flags)
           | Z_EROFS_VLE_CLUSTER_TYPE_PLAIN \<Rightarrow>
               (let flags' = flags_xor flags EROFS_MAP_ZIPPED;
                    lcn' = (if huawei_extension ctx
                            then lcn - vle_huawei_compat_previous_clusters (clustersize_of ctx) di
                            else lcn);
                    (ofs, pblk) = head_case_HEAD ctx di lcn'
                in (Inr (ofs, pblk, flags'), Some mp))
           | Z_EROFS_VLE_CLUSTER_TYPE_HUAWEI_COMPAT \<Rightarrow>
               if huawei_extension ctx then
                 (let lcn' = lcn - vle_huawei_compat_previous_clusters (clustersize_of ctx) di;
                      (ofs, pblk) = head_case_HEAD ctx di lcn'
                  in (Inr (ofs, pblk, flags), Some mp))
               else (Inl EIO, Some mp)
           | Z_EROFS_VLE_CLUSTER_TYPE_HEAD \<Rightarrow>
               (let (ofs, pblk) = head_case_HEAD ctx di lcn
                in (Inr (ofs, pblk, flags), Some mp))
           | Z_EROFS_VLE_CLUSTER_TYPE_RESERVED \<Rightarrow> (Inl EIO, Some mp)))"
  by pat_completeness auto
termination
proof (relation "measure (\<lambda>(ctx, mpage, lcn, flags). unat lcn)", goal_cases)
  case 1
  show ?case by simp
next
  case (2 ctx mpage lcn flags mp di delta0)
  then have "delta0 \<noteq> 0" and "delta0 \<le> lcn"
    by auto
  then have "0 < unat delta0" and "unat delta0 \<le> unat lcn"
    by (simp_all add: unat_gt_0 word_le_nat_alt)
  moreover have "unat (lcn - delta0) = unat lcn - unat delta0"
    using \<open>delta0 \<le> lcn\<close> by (simp add: unat_sub)
  ultimately show ?case by simp
qed

declare vle_get_logical_extent_head.simps [simp del]

text \<open>
  The \<open>exact_hitted\<close> label of \<open>z_erofs_map_blocks_iter\<close>: the mapping is filled in from
  the extent's end and start offsets and the physical block.
\<close>

definition map_exact_hitted ::
  "vle_map_blocks_iter_ctx \<Rightarrow> erofs_map_blocks \<Rightarrow> 64 word \<Rightarrow> 64 word \<Rightarrow> 32 word \<Rightarrow> erofs_map_blocks" where
  "map_exact_hitted ctx m lend ofs pblk =
     m\<lparr>m_llen := lend - ofs,
         m_plen := ucast (clustersize_of ctx),
         m_pa := blknr_to_addr ctx pblk,
         m_flags := insert EROFS_MAP_MAPPED (m_flags m)\<rparr>"

text \<open>
  The \<open>nonhead\<close> label: the head walk from \<open>lcn\<close>, then \<open>map->m_la = ofs\<close> and
  \<open>exact_hitted\<close>. The result is the returned error (\<open>None\<close> is 0), the mapping and
  \<open>*mpage_ret\<close>.
\<close>

definition map_nonhead ::
  "vle_map_blocks_iter_ctx \<Rightarrow> erofs_map_blocks \<Rightarrow> meta_page \<Rightarrow> 32 word \<Rightarrow> 64 word \<Rightarrow>
     errno option \<times> erofs_map_blocks \<times> meta_page option" where
  "map_nonhead ctx m mp lcn lend =
     (case vle_get_logical_extent_head ctx mp lcn (m_flags m) of
        (Inl e, mpage') \<Rightarrow> (Some e, m, mpage')
      | (Inr (ofs, pblk, fl), mpage') \<Rightarrow>
          (None, map_exact_hitted ctx (m\<lparr>m_flags := fl, m_la := ofs\<rparr>) lend ofs pblk, mpage'))"

text \<open>The \<open>case Z_EROFS_VLE_CLUSTER_TYPE_HEAD\<close> label of \<open>z_erofs_map_blocks_iter\<close>.\<close>

definition map_case_HEAD ::
  "vle_map_blocks_iter_ctx \<Rightarrow> erofs_map_blocks \<Rightarrow> meta_page \<Rightarrow> z_erofs_vle_decompressed_index \<Rightarrow>
     32 word \<Rightarrow> 64 word \<Rightarrow> 32 word \<Rightarrow> 32 word \<Rightarrow>
     errno option \<times> erofs_map_blocks \<times> meta_page option" where
  "map_case_HEAD ctx m mp di lcn ofs ofs_rem logical_cluster_ofs =
     (let clustersize = clustersize_of ctx;
          lend = (ucast lcn + 1) * ucast clustersize
      in if ofs_rem = logical_cluster_ofs then
           (None, map_exact_hitted ctx m lend ofs (di_u_blkaddr di), Some mp)
         else if ofs_rem > logical_cluster_ofs then
           (let ofs' = (ucast lcn * ucast clustersize) OR ucast logical_cluster_ofs
            in (None, map_exact_hitted ctx (m\<lparr>m_la := ofs'\<rparr>) lend ofs' (di_u_blkaddr di),
                Some mp))
         else if lcn = 0 then (Some EIO, m, Some mp)
         else map_nonhead ctx m mp (lcn - 1)
                ((ucast lcn * ucast clustersize) OR ucast logical_cluster_ofs))"

text \<open>
  The \<open>case Z_EROFS_VLE_CLUSTER_TYPE_HUAWEI_COMPAT\<close> label, compiled in with the extension:
  a nonzero packed count of previous clusters goes to \<open>nonhead\<close> with \<open>lcn - 1\<close>.
\<close>

definition map_case_HUAWEI_COMPAT ::
  "vle_map_blocks_iter_ctx \<Rightarrow> erofs_map_blocks \<Rightarrow> meta_page \<Rightarrow> z_erofs_vle_decompressed_index \<Rightarrow>
     32 word \<Rightarrow> 64 word \<Rightarrow> 32 word \<Rightarrow> 32 word \<Rightarrow>
     errno option \<times> erofs_map_blocks \<times> meta_page option" where
  "map_case_HUAWEI_COMPAT ctx m mp di lcn ofs ofs_rem logical_cluster_ofs =
     (let clustersize = clustersize_of ctx
      in if vle_huawei_compat_previous_clusters clustersize di \<noteq> 0 then
           map_nonhead ctx m mp (lcn - 1) ((ucast lcn + 1) * ucast clustersize)
         else map_case_HEAD ctx m mp di lcn ofs ofs_rem logical_cluster_ofs)"

text \<open>
  The metadata page \<open>z_erofs_map_blocks_iter\<close> decodes from: the caller's page when it is
  there and has the block's index, a freshly read one otherwise.
\<close>

definition map_meta_page ::
  "vle_map_blocks_iter_ctx \<Rightarrow> meta_page option \<Rightarrow> 32 word \<Rightarrow> errno + meta_page" where
  "map_meta_page ctx mpage mblk =
     (case mpage of
        None \<Rightarrow> erofs_get_meta_page ctx mblk
      | Some p \<Rightarrow> if index p \<noteq> unat mblk then erofs_get_meta_page ctx mblk else Inr p)"

definition z_erofs_map_blocks_iter ::
  "vle_map_blocks_iter_ctx \<Rightarrow> erofs_map_blocks \<Rightarrow> meta_page option \<Rightarrow>
     errno option \<times> erofs_map_blocks \<times> meta_page option" where
  "z_erofs_map_blocks_iter ctx m mpage =
     (let clustersize = clustersize_of ctx;
          initial = (m_llen m = 0)
      in if m_la m \<ge> i_size ctx then
           (None,
            m\<lparr>m_llen := m_la m + 1 - i_size ctx, m_la := i_size ctx, m_flags := {}\<rparr>,
            mpage)
         else
           (let ofs = m_la m + m_llen m;
                lcn = (ucast (drop_bit (clusterbits ctx) ofs) :: 32 word);
                ofs_rem = (ucast (ofs AND ucast (clustersize - 1)) :: 32 word);
                mblk = vle_extent_blkaddr ctx lcn
            in case map_meta_page ctx mpage mblk of
                 Inl e \<Rightarrow> (Some e, m, mpage)
               | Inr mp \<Rightarrow>
                   (let di = kaddr mp (unat (vle_extent_blkoff ctx lcn))
                    in case vle_decompressed_index_clusterofs ctx clustersize di of
                         Inl e \<Rightarrow> (Some e, m, Some mp)
                       | Inr logical_cluster_ofs \<Rightarrow>
                           if \<not> initial then
                             (None,
                              m\<lparr>m_llen := m_llen m + ucast logical_cluster_ofs\<rparr>,
                              Some mp)
                           else
                             (let map1 = m\<lparr>m_flags := insert EROFS_MAP_ZIPPED (m_flags m)\<rparr>
                              in case vle_cluster_type ctx di of
                                   Z_EROFS_VLE_CLUSTER_TYPE_PLAIN \<Rightarrow>
                                     (let map2 =
                                        (if ofs_rem \<ge> logical_cluster_ofs
                                         then map1\<lparr>m_flags := flags_xor (m_flags map1) EROFS_MAP_ZIPPED\<rparr>
                                         else map1)
                                      in if huawei_extension ctx
                                         then map_case_HUAWEI_COMPAT ctx map2 mp di lcn ofs ofs_rem
                                                logical_cluster_ofs
                                         else map_case_HEAD ctx map2 mp di lcn ofs ofs_rem
                                                logical_cluster_ofs)
                                 | Z_EROFS_VLE_CLUSTER_TYPE_HUAWEI_COMPAT \<Rightarrow>
                                     if huawei_extension ctx
                                     then map_case_HUAWEI_COMPAT ctx map1 mp di lcn ofs ofs_rem
                                            logical_cluster_ofs
                                     else (Some EIO, map1, Some mp)
                                 | Z_EROFS_VLE_CLUSTER_TYPE_HEAD \<Rightarrow>
                                     map_case_HEAD ctx map1 mp di lcn ofs ofs_rem logical_cluster_ofs
                                 | Z_EROFS_VLE_CLUSTER_TYPE_NONHEAD \<Rightarrow>
                                     map_nonhead ctx map1 mp lcn ((ucast lcn + 1) * ucast clustersize)
                                 | Z_EROFS_VLE_CLUSTER_TYPE_RESERVED \<Rightarrow>
                                     (Some EIO, map1, Some mp)))))"

subsection \<open>The head walk with a bound on its nested calls\<close>

text \<open>
  The same function with fuel: every call of \<open>vle_get_logical_extent_head\<close> uses one
  unit, and \<open>None\<close> means that the fuel ran out before the walk returned.
\<close>

fun vle_get_logical_extent_head_fuel ::
  "nat \<Rightarrow> vle_map_blocks_iter_ctx \<Rightarrow> meta_page \<Rightarrow> 32 word \<Rightarrow> m_flags_t \<Rightarrow>
     ((errno + (64 word \<times> 32 word \<times> m_flags_t)) \<times> meta_page option) option" where
  "vle_get_logical_extent_head_fuel 0 ctx mpage lcn flags = None"
| "vle_get_logical_extent_head_fuel (Suc fuel) ctx mpage lcn flags =
     (case head_meta_page ctx mpage lcn of
        Inl e \<Rightarrow> Some (Inl e, None)
      | Inr mp \<Rightarrow>
          (let di = kaddr mp (unat (vle_extent_blkoff ctx lcn)) in
           case vle_cluster_type ctx di of
             Z_EROFS_VLE_CLUSTER_TYPE_NONHEAD \<Rightarrow>
               (let delta0 = (ucast (di_u_delta0 di) :: 32 word) in
                if delta0 = 0 \<or> delta0 > lcn then Some (Inl EIO, Some mp)
                else vle_get_logical_extent_head_fuel fuel ctx mp (lcn - delta0) flags)
           | Z_EROFS_VLE_CLUSTER_TYPE_PLAIN \<Rightarrow>
               (let flags' = flags_xor flags EROFS_MAP_ZIPPED;
                    lcn' = (if huawei_extension ctx
                            then lcn - vle_huawei_compat_previous_clusters (clustersize_of ctx) di
                            else lcn);
                    (ofs, pblk) = head_case_HEAD ctx di lcn'
                in Some (Inr (ofs, pblk, flags'), Some mp))
           | Z_EROFS_VLE_CLUSTER_TYPE_HUAWEI_COMPAT \<Rightarrow>
               if huawei_extension ctx then
                 (let lcn' = lcn - vle_huawei_compat_previous_clusters (clustersize_of ctx) di;
                      (ofs, pblk) = head_case_HEAD ctx di lcn'
                  in Some (Inr (ofs, pblk, flags), Some mp))
               else Some (Inl EIO, Some mp)
           | Z_EROFS_VLE_CLUSTER_TYPE_HEAD \<Rightarrow>
               (let (ofs, pblk) = head_case_HEAD ctx di lcn
                in Some (Inr (ofs, pblk, flags), Some mp))
           | Z_EROFS_VLE_CLUSTER_TYPE_RESERVED \<Rightarrow> Some (Inl EIO, Some mp)))"

declare vle_get_logical_extent_head_fuel.simps [simp del]

text \<open>
  The records a head walk decodes. \<open>head_reaches ctx mpage lcn mp' lcn'\<close>: the walk
  entered at \<open>lcn\<close> while holding \<open>mpage\<close> comes to decode the record of cluster \<open>lcn'\<close>
  from the page \<open>mp'\<close>, either at once or after following NONHEAD records whose deltas
  passed the check.
\<close>

inductive head_reaches ::
  "vle_map_blocks_iter_ctx \<Rightarrow> meta_page \<Rightarrow> 32 word \<Rightarrow> meta_page \<Rightarrow> 32 word \<Rightarrow> bool"
  for ctx :: vle_map_blocks_iter_ctx where
  here: "head_meta_page ctx mpage lcn = Inr mp \<Longrightarrow> head_reaches ctx mpage lcn mp lcn"
| follow:
    "head_meta_page ctx mpage lcn = Inr mp \<Longrightarrow>
     vle_cluster_type ctx (kaddr mp (unat (vle_extent_blkoff ctx lcn))) =
       Z_EROFS_VLE_CLUSTER_TYPE_NONHEAD \<Longrightarrow>
     delta0 = ucast (di_u_delta0 (kaddr mp (unat (vle_extent_blkoff ctx lcn)))) \<Longrightarrow>
     delta0 \<noteq> 0 \<Longrightarrow> delta0 \<le> lcn \<Longrightarrow>
     head_reaches ctx mp (lcn - delta0) mp' lcn' \<Longrightarrow>
     head_reaches ctx mpage lcn mp' lcn'"

text \<open>
  The logical cluster number \<open>z_erofs_map_blocks_iter\<close> computes for a mapping,
  \<open>lcn = (m_la + m_llen) >> clusterbits\<close> cut to 32 bits, and the record it decodes there
  from a metadata page.
\<close>

definition requested_lcn :: "vle_map_blocks_iter_ctx \<Rightarrow> erofs_map_blocks \<Rightarrow> 32 word" where
  "requested_lcn ctx m = ucast (drop_bit (clusterbits ctx) (m_la m + m_llen m))"

definition record_at ::
  "vle_map_blocks_iter_ctx \<Rightarrow> meta_page \<Rightarrow> 32 word \<Rightarrow> z_erofs_vle_decompressed_index" where
  "record_at ctx mp lcn = kaddr mp (unat (vle_extent_blkoff ctx lcn))"

text \<open>The check of the head walk on a NONHEAD record: its delta is zero or exceeds \<open>lcn\<close>.\<close>

definition invalid_delta :: "z_erofs_vle_decompressed_index \<Rightarrow> 32 word \<Rightarrow> bool" where
  "invalid_delta di lcn = (ucast (di_u_delta0 di) = (0 :: 32 word) \<or> ucast (di_u_delta0 di) > lcn)"

text \<open>The remainder of the requested offset within its cluster, \<open>ofs & (clustersize - 1)\<close>.\<close>

definition requested_ofs_rem :: "vle_map_blocks_iter_ctx \<Rightarrow> erofs_map_blocks \<Rightarrow> 32 word" where
  "requested_ofs_rem ctx m = ucast ((m_la m + m_llen m) AND ucast (clustersize_of ctx - 1))"

subsection \<open>Concrete index tables\<close>

text \<open>
  A small inode: 4096-byte clusters and blocks, the index records of the first clusters in
  block 1, and the customary numbering of the cluster types (0 plain, 1 head, 2 nonhead).
\<close>

definition cluster_type_numbering :: "16 word \<Rightarrow> vle_cluster_type" where
  "cluster_type_numbering a =
     (if a AND 3 = 0 then Z_EROFS_VLE_CLUSTER_TYPE_PLAIN
      else if a AND 3 = 1 then Z_EROFS_VLE_CLUSTER_TYPE_HEAD
      else if a AND 3 = 2 then Z_EROFS_VLE_CLUSTER_TYPE_NONHEAD
      else Z_EROFS_VLE_CLUSTER_TYPE_HUAWEI_COMPAT)"

definition eof_ctx :: vle_map_blocks_iter_ctx where
  "eof_ctx =
     \<lparr>clusterbits = 12, i_size = 10000, huawei_extension = False,
      cluster_type_of = cluster_type_numbering,
      iloc = 4096, extent_start = 64, EROFS_BLKSIZ = 4096,
      erofs_get_meta_page = (\<lambda>b. Inl EIO)\<rparr>"

definition eof_map :: erofs_map_blocks where
  "eof_map = \<lparr>m_pa = 0, m_la = 12287, m_plen = 0, m_llen = 0, m_flags = {EROFS_MAP_MAPPED}\<rparr>"

definition di_HEAD :: "16 word \<Rightarrow> 32 word \<Rightarrow> z_erofs_vle_decompressed_index" where
  "di_HEAD cofs blk = \<lparr>di_advise = 1, di_clusterofs = cofs, di_u = blk\<rparr>"

definition di_PLAIN :: "16 word \<Rightarrow> 16 word \<Rightarrow> 32 word \<Rightarrow> z_erofs_vle_decompressed_index" where
  "di_PLAIN adv cofs blk = \<lparr>di_advise = push_bit 4 adv, di_clusterofs = cofs, di_u = blk\<rparr>"

definition di_NONHEAD :: "32 word \<Rightarrow> z_erofs_vle_decompressed_index" where
  "di_NONHEAD delta = \<lparr>di_advise = 2, di_clusterofs = 0, di_u = delta\<rparr>"

text \<open>
  The metadata page (block 1) that holds the records of a list, the record of cluster
  \<open>n\<close> at byte \<open>64 + 8 n\<close>, and an inode whose index lives there.
\<close>

definition index_page :: "z_erofs_vle_decompressed_index list \<Rightarrow> meta_page" where
  "index_page dis =
     \<lparr>index = 1,
      kaddr = (\<lambda>off. if 64 \<le> off \<and> (off - 64) div 8 < length dis
                      then dis ! ((off - 64) div 8)
                      else \<lparr>di_advise = 3, di_clusterofs = 0, di_u = 0\<rparr>)\<rparr>"

definition index_ctx ::
  "bool \<Rightarrow> 64 word \<Rightarrow> z_erofs_vle_decompressed_index list \<Rightarrow> vle_map_blocks_iter_ctx" where
  "index_ctx ext isize dis =
     \<lparr>clusterbits = 12, i_size = isize, huawei_extension = ext,
      cluster_type_of = cluster_type_numbering,
      iloc = 4096, extent_start = 64, EROFS_BLKSIZ = 4096,
      erofs_get_meta_page = (\<lambda>b. if b = 1 then Inr (index_page dis) else Inl EIO)\<rparr>"

text \<open>
  A head at cluster 0 followed by three NONHEAD records, and the same with a zero delta
  at cluster 1.
\<close>

definition valid_chain :: "z_erofs_vle_decompressed_index list" where
  "valid_chain = [di_HEAD 100 7, di_NONHEAD 1, di_NONHEAD 2, di_NONHEAD 1]"

definition corrupt_chain :: "z_erofs_vle_decompressed_index list" where
  "corrupt_chain = [di_HEAD 100 7, di_NONHEAD 0, di_NONHEAD 1, di_NONHEAD 1]"

definition initial_map :: "64 word \<Rightarrow> erofs_map_blocks" where
  "initial_map la = \<lparr>m_pa = 0, m_la = la, m_plen = 0, m_llen = 0, m_flags = {}\<rparr>"

text \<open>A mapping in walking mode: one byte resolved at offset 0.\<close>

definition walking_map :: erofs_map_blocks where
  "walking_map = \<lparr>m_pa = 28672, m_la = 0, m_plen = 4096, m_llen = 1,
                   m_flags = {EROFS_MAP_MAPPED, EROFS_MAP_ZIPPED}\<rparr>"

text \<open>An index whose first record is a NONHEAD record with a zero delta.\<close>

definition nonhead_first_chain :: "z_erofs_vle_decompressed_index list" where
  "nonhead_first_chain = [di_NONHEAD 0, di_HEAD 0 9]"

text \<open>
  Two plain clusters; the record of the second packs a nonzero count of previous clusters
  into bits 4 to 7 of its advise. And the same index with a HEAD record second.
\<close>

definition compat_plain_chain :: "z_erofs_vle_decompressed_index list" where
  "compat_plain_chain = [di_PLAIN 0 0 7, di_PLAIN 1 0 8]"

definition plain_chain :: "z_erofs_vle_decompressed_index list" where
  "plain_chain = [di_PLAIN 0 0 7, di_PLAIN 0 100 8]"

definition plain_head_chain :: "z_erofs_vle_decompressed_index list" where
  "plain_head_chain = [di_PLAIN 0 0 7, di_HEAD 0 8]"



text \<open>
  An inode of 8 GiB whose whole content is one extent: a HEAD record at cluster 0 and, at
  every later cluster \<open>n\<close>, a NONHEAD record that points back by \<open>n\<close> clusters, or by 65535
  where \<open>n\<close> is larger. The record of cluster \<open>n\<close> lies at byte \<open>4160 + 8 n\<close> of the device,
  and every metadata block can be read. The two mappings are those that the resolver
  gives for byte 4196 and for byte \<open>2^32 + 100\<close> of the file.
\<close>

definition long_extent_record :: "nat \<Rightarrow> z_erofs_vle_decompressed_index" where
  "long_extent_record n = (if n = 0 then di_HEAD 0 7 else di_NONHEAD (word_of_nat (min n 65535)))"

definition long_extent_page :: "32 word \<Rightarrow> meta_page" where
  "long_extent_page b =
     \<lparr>index = unat b,
      kaddr = (\<lambda>off. long_extent_record ((unat b * 4096 + off - 4160) div 8))\<rparr>"

definition long_extent_ctx :: vle_map_blocks_iter_ctx where
  "long_extent_ctx =
     \<lparr>clusterbits = 12, i_size = 8589934592, huawei_extension = False,
      cluster_type_of = cluster_type_numbering,
      iloc = 4096, extent_start = 64, EROFS_BLKSIZ = 4096,
      erofs_get_meta_page = (\<lambda>b. Inr (long_extent_page b))\<rparr>"

definition near_map :: erofs_map_blocks where
  "near_map = \<lparr>m_pa = 28672, m_la = 0, m_plen = 4096, m_llen = 8192,
                m_flags = {EROFS_MAP_MAPPED, EROFS_MAP_ZIPPED}\<rparr>"

definition far_map :: erofs_map_blocks where
  "far_map = \<lparr>m_pa = 28672, m_la = 0, m_plen = 4096, m_llen = 4294971392,
               m_flags = {EROFS_MAP_MAPPED, EROFS_MAP_ZIPPED}\<rparr>"

section \<open>Workgroups and the owned chain\<close>

text \<open>
  A value of \<open>z_erofs_vle_owned_workgrp_t\<close> is one of the three sentinels or the address
  of a workgroup.
\<close>

datatype z_erofs_vle_owned_workgrp_t =
    Z_EROFS_VLE_WORKGRP_NIL
  | Z_EROFS_VLE_WORKGRP_TAIL
  | Z_EROFS_VLE_WORKGRP_TAIL_CLOSED
  | WORKGRP nat

datatype z_erofs_vle_work_role =
    Z_EROFS_VLE_WORK_SECONDARY
  | Z_EROFS_VLE_WORK_PRIMARY
  | Z_EROFS_VLE_WORK_PRIMARY_TERMINAL
  | Z_EROFS_VLE_WORK_PRIMARY_FOLLOWED

text \<open>
  Other threads may store into a shared word between two accesses of this thread. A
  schedule lists, for each access this thread makes in turn, whether another thread
  stored a value just before it (\<open>Some v\<close>) or not (\<open>None\<close>); after the end of the list
  nobody interferes. \<open>observe\<close> gives the value the access finds and the rest of the
  schedule.
\<close>

fun observe :: "'a option list \<Rightarrow> 'a \<Rightarrow> 'a \<times> 'a option list" where
  "observe [] v = (v, [])"
| "observe (None # sched) v = (v, sched)"
| "observe (Some w # sched) v = (w, sched)"

text \<open>
  What \<open>try_to_claim_workgroup\<close> reads and writes: \<open>grp->next\<close>, \<open>*owned_head\<close> and
  \<open>*hosted\<close>.
\<close>

record claim_state =
  grp_next :: z_erofs_vle_owned_workgrp_t
  owned_head :: z_erofs_vle_owned_workgrp_t
  hosted :: bool

text \<open>
  \<open>try_to_claim_workgroup\<close> for the workgroup at address \<open>grp\<close>. Each test of \<open>grp->next\<close>
  and each \<open>cmpxchg\<close> is one access; a \<open>cmpxchg\<close> that finds another value than the
  expected one stores nothing and the function starts over at \<open>retry\<close>.
\<close>

function try_to_claim_workgroup ::
  "nat \<Rightarrow> z_erofs_vle_owned_workgrp_t option list \<Rightarrow> claim_state \<Rightarrow>
     z_erofs_vle_work_role \<times> claim_state" where
  "try_to_claim_workgroup grp sched s =
     (case observe sched (grp_next s) of (v1, sched1) \<Rightarrow>
        if v1 = Z_EROFS_VLE_WORKGRP_NIL then
          (case observe sched1 v1 of (v2, sched2) \<Rightarrow>
             if v2 \<noteq> Z_EROFS_VLE_WORKGRP_NIL then
               try_to_claim_workgroup grp sched2 (s\<lparr>grp_next := v2\<rparr>)
             else
               (Z_EROFS_VLE_WORK_PRIMARY_FOLLOWED,
                s\<lparr>grp_next := owned_head s, owned_head := WORKGRP grp, hosted := True\<rparr>))
        else
          (case observe sched1 v1 of (v3, sched3) \<Rightarrow>
             if v3 = Z_EROFS_VLE_WORKGRP_TAIL then
               (case observe sched3 v3 of (v4, sched4) \<Rightarrow>
                  if v4 \<noteq> Z_EROFS_VLE_WORKGRP_TAIL then
                    try_to_claim_workgroup grp sched4 (s\<lparr>grp_next := v4\<rparr>)
                  else
                    (Z_EROFS_VLE_WORK_PRIMARY_TERMINAL,
                     s\<lparr>grp_next := owned_head s, owned_head := Z_EROFS_VLE_WORKGRP_TAIL\<rparr>))
             else (Z_EROFS_VLE_WORK_PRIMARY, s\<lparr>grp_next := v3\<rparr>)))"
  by pat_completeness auto
termination
proof (relation "measure (\<lambda>(grp, sched, s). length sched)", goal_cases)
  case 1
  show ?case by simp
next
  case (2 grp sched s v1 sched1 v2 sched2)
  have le: "length (snd (observe xs v)) \<le> length xs" for xs :: "'b option list" and v
    by (cases "(xs, v)" rule: observe.cases) simp_all
  have lt: "fst (observe xs v) \<noteq> v \<Longrightarrow> length (snd (observe xs v)) < length xs"
    for xs :: "'b option list" and v
    by (cases "(xs, v)" rule: observe.cases) simp_all
  from 2 have "fst (observe sched1 v1) \<noteq> v1" and "sched2 = snd (observe sched1 v1)"
    and "sched1 = snd (observe sched (grp_next s))"
    by (auto simp add: fst_conv snd_conv dest: sym [of "(_, _)"])
  then have "length sched2 < length sched"
    using lt [of sched1 v1] le [of sched "grp_next s"] by simp
  then show ?case by simp
next
  case (3 grp sched s v1 sched1 v3 sched3 v4 sched4)
  have le: "length (snd (observe xs v)) \<le> length xs" for xs :: "'b option list" and v
    by (cases "(xs, v)" rule: observe.cases) simp_all
  have lt: "fst (observe xs v) \<noteq> v \<Longrightarrow> length (snd (observe xs v)) < length xs"
    for xs :: "'b option list" and v
    by (cases "(xs, v)" rule: observe.cases) simp_all
  from 3 have "fst (observe sched3 v3) \<noteq> v3" and "sched4 = snd (observe sched3 v3)"
    and "sched3 = snd (observe sched1 v1)" and "sched1 = snd (observe sched (grp_next s))"
    by (auto simp add: fst_conv snd_conv dest: sym [of "(_, _)"])
  then have "length sched4 < length sched"
    using lt [of sched3 v3] le [of sched1 v1] le [of sched "grp_next s"] by simp
  then show ?case by simp
qed

declare try_to_claim_workgroup.simps [simp del]

text \<open>What one run of the claim leaves behind, told from the state it started in.\<close>

definition claim_outcome ::
  "nat \<Rightarrow> z_erofs_vle_owned_workgrp_t option list \<Rightarrow> claim_state \<Rightarrow>
     z_erofs_vle_work_role \<times> claim_state \<Rightarrow> bool" where
  "claim_outcome grp sched s r =
     (case r of
        (Z_EROFS_VLE_WORK_PRIMARY_FOLLOWED, s') \<Rightarrow>
          (grp_next s = Z_EROFS_VLE_WORKGRP_NIL \<or> Some Z_EROFS_VLE_WORKGRP_NIL \<in> set sched) \<and>
          grp_next s' = owned_head s \<and> owned_head s' = WORKGRP grp \<and> hosted s'
      | (Z_EROFS_VLE_WORK_PRIMARY_TERMINAL, s') \<Rightarrow>
          (grp_next s = Z_EROFS_VLE_WORKGRP_TAIL \<or> Some Z_EROFS_VLE_WORKGRP_TAIL \<in> set sched) \<and>
          grp_next s' = owned_head s \<and> owned_head s' = Z_EROFS_VLE_WORKGRP_TAIL \<and>
          hosted s' = hosted s
      | (Z_EROFS_VLE_WORK_PRIMARY, s') \<Rightarrow>
          grp_next s' \<noteq> Z_EROFS_VLE_WORKGRP_TAIL \<and>
          (grp_next s' = grp_next s \<or> Some (grp_next s') \<in> set sched) \<and>
          owned_head s' = owned_head s \<and> hosted s' = hosted s
      | (Z_EROFS_VLE_WORK_SECONDARY, s') \<Rightarrow> False)"

text \<open>
  A claim that starts on an unclaimed workgroup while another thread links the workgroup
  to the end of an open chain between the test and the \<open>cmpxchg\<close>.
\<close>

definition unclaimed :: claim_state where
  "unclaimed = \<lparr>grp_next = Z_EROFS_VLE_WORKGRP_NIL, owned_head = WORKGRP 3, hosted = False\<rparr>"

definition raced_schedule :: "z_erofs_vle_owned_workgrp_t option list" where
  "raced_schedule = [None, Some Z_EROFS_VLE_WORKGRP_TAIL]"

section \<open>Pages, workgroups and reclaim\<close>

text \<open>
  A page is known by its address (a number); the page store gives the state of the page
  at each address. \<open>mapping\<close> tells the owner apart: no owner, the staging pool, a page
  reserved for the managed cache, the managed cache itself (\<open>MNGD_MAPPING(sbi)\<close>), or a
  file. \<open>online_index\<close> and \<open>online_count\<close> are the two halves of the private word of a
  page that is being read (\<open>z_erofs_onlinepage_*\<close>).
\<close>

datatype page_mapping =
    MAPPING_NULL
  | Z_EROFS_MAPPING_STAGING
  | Z_EROFS_MAPPING_PREALLOCATED
  | MNGD_MAPPING
  | FILE_MAPPING

record page =
  mapping :: page_mapping
  PageLocked :: bool
  PageUptodate :: bool
  PageError :: bool
  PagePrivate :: bool
  page_private :: nat
  page_count :: int
  online_index :: nat
  online_count :: nat

type_synonym page_store = "nat \<Rightarrow> page"

datatype z_erofs_page_type =
    Z_EROFS_PAGE_TYPE_EXCLUSIVE
  | Z_EROFS_VLE_PAGE_TYPE_TAIL_SHARED
  | Z_EROFS_VLE_PAGE_TYPE_HEAD

datatype workgrp_fmt = Z_EROFS_VLE_WORKGRP_FMT_PLAIN | Z_EROFS_VLE_WORKGRP_FMT_LZ4

text \<open>
  \<open>struct z_erofs_vle_workgroup\<close> with its one work (\<open>workgrp_next\<close> is the field \<open>next\<close>).
  \<open>compressed_pages\<close> lists the
  \<open>clusterpages\<close> slots the loops of this file visit (\<open>None\<close> is \<open>NULL\<close>); \<open>work_pagevec\<close>
  lists the \<open>vcnt\<close> entries of the page vector in the order in which they are dequeued.
  The struct is declared in a header that is not part of this file: the code reads
  \<open>grp->llen\<close> into \<open>unsigned int orig_llen\<close> and compares it with \<open>unsigned llen\<close>, and
  the model gives the field that width.
\<close>

record z_erofs_vle_workgroup =
  obj_index :: nat
  obj_refcount :: int
  workgrp_next :: z_erofs_vle_owned_workgrp_t
  compressed_pages :: "nat option list"
  llen :: "32 word"
  fmt :: workgrp_fmt
  work_lock :: bool
  work_pageofs :: nat
  work_nr_pages :: nat
  work_vcnt :: nat
  work_pagevec :: "(nat \<times> z_erofs_page_type) list"

subsection \<open>The freeze protocol\<close>

text \<open>
  Modelled from the spec: \<open>erofs_workgroup_try_to_freeze\<close> and
  \<open>erofs_workgroup_unfreeze\<close> are defined outside this file. The spec: freeze succeeds
  only by CAS-ing the refcount to a sentinel "locked" value from the expected value, and
  fails (signaling busy) otherwise; unfreeze stores the count back. The sentinel is a
  negative number that no live count takes.
\<close>

definition EROFS_LOCKED_MAGIC :: int where
  "EROFS_LOCKED_MAGIC = - 520810292"

definition erofs_workgroup_try_to_freeze ::
  "z_erofs_vle_workgroup \<Rightarrow> int \<Rightarrow> bool \<times> z_erofs_vle_workgroup" where
  "erofs_workgroup_try_to_freeze grp v =
     (if obj_refcount grp = v then (True, grp\<lparr>obj_refcount := EROFS_LOCKED_MAGIC\<rparr>)
      else (False, grp))"

definition erofs_workgroup_unfreeze :: "z_erofs_vle_workgroup \<Rightarrow> int \<Rightarrow> z_erofs_vle_workgroup" where
  "erofs_workgroup_unfreeze grp v = grp\<lparr>obj_refcount := v\<rparr>"

subsection \<open>Reclaim of one cached page\<close>

text \<open>
  The loop of \<open>erofs_try_to_free_cached_page\<close>: the first slot that holds the page is set
  to \<open>NULL\<close> and the loop stops with \<open>ret = 1\<close>.
\<close>

fun free_cached_page_slots :: "nat option list \<Rightarrow> nat \<Rightarrow> bool \<times> nat option list" where
  "free_cached_page_slots [] pg = (False, [])"
| "free_cached_page_slots (slot # slots) pg =
     (if slot = Some pg then (True, None # slots)
      else (case free_cached_page_slots slots pg of (ret, slots') \<Rightarrow> (ret, slot # slots')))"

text \<open>
  \<open>erofs_try_to_free_cached_page\<close> for the page at address \<open>pg\<close>, whose private word
  points to \<open>grp\<close>. It returns \<open>ret\<close> (0 is busy), the workgroup and the page.
\<close>

definition erofs_try_to_free_cached_page ::
  "z_erofs_vle_workgroup \<Rightarrow> nat \<Rightarrow> page \<Rightarrow> nat \<times> z_erofs_vle_workgroup \<times> page" where
  "erofs_try_to_free_cached_page grp pg p =
     (case erofs_workgroup_try_to_freeze grp 1 of
        (False, grp0) \<Rightarrow> (0, grp0, p)
      | (True, grp1) \<Rightarrow>
          (case free_cached_page_slots (compressed_pages grp1) pg of
             (ret, slots') \<Rightarrow>
               (let grp2 = erofs_workgroup_unfreeze (grp1\<lparr>compressed_pages := slots'\<rparr>) 1
                in if ret then (1, grp2, p\<lparr>PagePrivate := False, page_count := page_count p - 1\<rparr>)
                   else (0, grp2, p))))"

subsection \<open>Reclaim of all cached pages\<close>

text \<open>
  The loop of \<open>erofs_try_to_free_all_cached_pages\<close> over the slots. An empty slot is
  skipped. A page whose lock is taken (\<open>trylock_page\<close> fails) stops the loop: the result
  is busy, with the slots and pages handled so far already released. Otherwise the slot
  is cleared, the page loses its private word and flag and one reference, and is
  unlocked again.
\<close>

fun free_all_cached_pages_slots ::
  "nat option list \<Rightarrow> page_store \<Rightarrow> bool \<times> nat option list \<times> page_store" where
  "free_all_cached_pages_slots [] ps = (False, [], ps)"
| "free_all_cached_pages_slots (None # slots) ps =
     (case free_all_cached_pages_slots slots ps of
        (busy, slots', ps') \<Rightarrow> (busy, None # slots', ps'))"
| "free_all_cached_pages_slots (Some pg # slots) ps =
     (if PageLocked (ps pg) then (True, Some pg # slots, ps)
      else
        (let ps1 = ps(pg := (ps pg)\<lparr>page_private := 0, PagePrivate := False,
                                      page_count := page_count (ps pg) - 1\<rparr>)
         in case free_all_cached_pages_slots slots ps1 of
              (busy, slots', ps') \<Rightarrow> (busy, None # slots', ps')))"

text \<open>
  \<open>erofs_try_to_free_all_cached_pages\<close>: \<open>mutex_trylock\<close> on the work's lock, then the
  loop, then \<open>mutex_unlock\<close>. It returns 0 (\<open>None\<close>) or \<open>-EBUSY\<close>.
\<close>

definition erofs_try_to_free_all_cached_pages ::
  "z_erofs_vle_workgroup \<Rightarrow> page_store \<Rightarrow> errno option \<times> z_erofs_vle_workgroup \<times> page_store" where
  "erofs_try_to_free_all_cached_pages grp ps =
     (if work_lock grp then (Some EBUSY, grp, ps)
      else
        (case free_all_cached_pages_slots (compressed_pages grp) ps of
           (busy, slots', ps') \<Rightarrow>
             ((if busy then Some EBUSY else None),
              grp\<lparr>compressed_pages := slots', work_lock := False\<rparr>, ps')))"

subsection \<open>The recorded logical length\<close>

text \<open>
  What a caller hands to \<open>z_erofs_vle_work_register\<close>: the finder's block index, page
  offset and owned head, whether \<open>*f->grp_ret\<close> is \<open>NULL\<close>, whether \<open>kmem_cache_zalloc\<close>
  gives memory and whether \<open>erofs_register_workgroup\<close> fails, and the address and slot
  count of the workgroup that would be allocated.
\<close>

record work_register_args =
  f_idx :: nat
  f_pageofs :: nat
  f_owned_head :: z_erofs_vle_owned_workgrp_t
  f_grp_ret_null :: bool
  alloc_ok :: bool
  register_fails :: bool
  new_grp :: nat
  clusterpages :: nat

datatype work_register_result =
    REGISTER_BUG
  | REGISTER_ERR errno
  | REGISTERED z_erofs_vle_workgroup z_erofs_vle_work_role bool z_erofs_vle_owned_workgrp_t

definition z_erofs_vle_work_register ::
  "work_register_args \<Rightarrow> erofs_map_blocks \<Rightarrow> work_register_result" where
  "z_erofs_vle_work_register f m =
     (if \<not> f_grp_ret_null f then REGISTER_BUG
      else if \<not> alloc_ok f then REGISTER_ERR ENOMEM
      else if register_fails f then REGISTER_ERR EAGAIN
      else
        REGISTERED
          \<lparr>obj_index = f_idx f,
           obj_refcount = 1,
           workgrp_next = f_owned_head f,
           compressed_pages = replicate (clusterpages f) None,
           llen = ucast (m_llen m),
           fmt = (if EROFS_MAP_ZIPPED \<in> m_flags m then Z_EROFS_VLE_WORKGRP_FMT_LZ4
                  else Z_EROFS_VLE_WORKGRP_FMT_PLAIN),
           work_lock = True,
           work_pageofs = f_pageofs f,
           work_nr_pages = 0,
           work_vcnt = 0,
           work_pagevec = []\<rparr>
          Z_EROFS_VLE_WORK_PRIMARY_FOLLOWED True (WORKGRP (new_grp f)))"

text \<open>
  The loop of \<open>z_erofs_vle_work_iter_begin\<close> on a workgroup that the lookup found:
  \<open>while ((orig_llen = READ_ONCE(grp->llen)) < map->m_llen && orig_llen !=
  cmpxchg_relaxed(&grp->llen, orig_llen, map->m_llen)) cpu_relax();\<close>. The comparison is
  on 64 bits, the store cuts \<open>m_llen\<close> to the width of the field. The reading and the
  \<open>cmpxchg\<close> are one access each, open to stores of other threads as in
  \<open>try_to_claim_workgroup\<close>. The result tells what the loop did to \<open>grp->llen\<close>:
  \<open>LLEN_KEPT v\<close>, its last reading found \<open>v\<close>, not smaller than \<open>m_llen\<close>, and it stored
  nothing; \<open>LLEN_STORED old new\<close>, its \<open>cmpxchg\<close> found \<open>old\<close> in the field and replaced it
  by \<open>new\<close>.
\<close>

datatype llen_outcome = LLEN_KEPT "32 word" | LLEN_STORED "32 word" "32 word"

function work_iter_begin_llen :: "32 word option list \<Rightarrow> 32 word \<Rightarrow> 64 word \<Rightarrow> llen_outcome" where
  "work_iter_begin_llen sched grp_llen map_llen =
     (case observe sched grp_llen of (orig_llen, sched1) \<Rightarrow>
        if ucast orig_llen < map_llen then
          (case observe sched1 orig_llen of (found, sched2) \<Rightarrow>
             if orig_llen \<noteq> found then work_iter_begin_llen sched2 found map_llen
             else LLEN_STORED orig_llen (ucast map_llen))
        else LLEN_KEPT orig_llen)"
  by pat_completeness auto
termination
proof (relation "measure (\<lambda>(sched, grp_llen, map_llen). length sched)", goal_cases)
  case 1
  show ?case by simp
next
  case (2 sched grp_llen map_llen orig_llen sched1 found sched2)
  have le: "length (snd (observe xs v)) \<le> length xs" for xs :: "'b option list" and v
    by (cases "(xs, v)" rule: observe.cases) simp_all
  have lt: "fst (observe xs v) \<noteq> v \<Longrightarrow> length (snd (observe xs v)) < length xs"
    for xs :: "'b option list" and v
    by (cases "(xs, v)" rule: observe.cases) simp_all
  from 2 have "fst (observe sched1 orig_llen) \<noteq> orig_llen"
    and "sched2 = snd (observe sched1 orig_llen)"
    and "sched1 = snd (observe sched grp_llen)"
    by (auto simp add: fst_conv snd_conv dest: sym [of "(_, _)"])
  then have "length sched2 < length sched"
    using lt [of sched1 orig_llen] le [of sched grp_llen] by simp
  then show ?case by simp
qed

declare work_iter_begin_llen.simps [simp del]

text \<open>The value of \<open>grp->llen\<close> when the loop has ended.\<close>

fun llen_after :: "llen_outcome \<Rightarrow> 32 word" where
  "llen_after (LLEN_KEPT v) = v"
| "llen_after (LLEN_STORED old new) = new"

text \<open>
  The arguments of a registration that goes through, for an extent in block 7 that starts
  at the start of a page.
\<close>

definition register_args :: work_register_args where
  "register_args =
     \<lparr>f_idx = 7, f_pageofs = 0, f_owned_head = Z_EROFS_VLE_WORKGRP_TAIL,
      f_grp_ret_null = True, alloc_ok = True, register_fails = False,
      new_grp = 5, clusterpages = 1\<rparr>"

text \<open>A workgroup with one cached page (at address 11) and two holders of a reference.\<close>

definition cached_page :: page where
  "cached_page =
     \<lparr>mapping = MNGD_MAPPING, PageLocked = False, PageUptodate = True, PageError = False,
      PagePrivate = True, page_private = 5, page_count = 2, online_index = 0, online_count = 0\<rparr>"

definition busy_grp :: z_erofs_vle_workgroup where
  "busy_grp =
     \<lparr>obj_index = 7, obj_refcount = 2, workgrp_next = Z_EROFS_VLE_WORKGRP_NIL,
      compressed_pages = [Some 11], llen = 4096, fmt = Z_EROFS_VLE_WORKGRP_FMT_LZ4,
      work_lock = False, work_pageofs = 0, work_nr_pages = 0, work_vcnt = 0,
      work_pagevec = []\<rparr>"

section \<open>The decompression pass\<close>

text \<open>
  What \<open>z_erofs_vle_unzip\<close> takes from outside this file: whether the managed cache is
  compiled in (\<open>EROFS_FS_HAS_MANAGED_CACHE\<close>), the page size exponent, what the three
  decompression routines return when they are called (\<open>None\<close> is 0; the fast path
  answers \<open>-ENOTSUPP\<close> when it does not apply), whether \<open>erofs_vmap\<close> finds address
  space, and the addresses of the pages the allocator hands out once the pool is empty.
  The choice between the on-stack, the global and a heap buffer for the array of
  destination pages changes no result and is left out.
\<close>

record unzip_env =
  has_managed_cache :: bool
  PAGE_SHIFT :: nat
  z_erofs_vle_plain_copy :: "errno option"
  z_erofs_vle_unzip_fast_percpu :: "errno option"
  erofs_vmap_ok :: bool
  z_erofs_vle_unzip_vmap :: "errno option"
  fresh_pages :: "nat list"

datatype unzip_event = PLAIN_COPY | UNZIP_FAST_PERCPU | UNZIP_VMAP | ENDIO nat

text \<open>
  Modelled from the spec: \<open>z_erofs_is_stagingpage\<close>, \<open>z_erofs_gather_if_stagingpage\<close>,
  \<open>z_erofs_onlinepage_index\<close>, \<open>z_erofs_onlinepage_index2\<close> and
  \<open>z_erofs_onlinepage_endio\<close> are defined outside this file. The spec: staging pages are
  pool-owned and are returned to the pool; an entry of the page vector goes to its
  recorded destination index; a destination page is finalized by being marked done and
  unlocked. Ending the online I/O of a page takes one from its count of pending parts;
  at zero the page loses its private flag, becomes up to date unless its error flag is
  set, and is unlocked.
\<close>

definition z_erofs_is_stagingpage :: "page \<Rightarrow> bool" where
  "z_erofs_is_stagingpage p = (mapping p = Z_EROFS_MAPPING_STAGING)"

definition z_erofs_onlinepage_endio :: "page \<Rightarrow> page" where
  "z_erofs_onlinepage_endio p =
     (let p' = p\<lparr>online_count := online_count p - 1\<rparr>
      in if online_count p' = 0
         then p'\<lparr>PagePrivate := False,
                 PageUptodate := (PageUptodate p' \<or> \<not> PageError p'),
                 PageLocked := False\<rparr>
         else p')"

text \<open>
  The loop over the page vector: a staging page goes to the pool, any other page to its
  place in \<open>pages\<close>, index 0 for a page of type HEAD. \<open>None\<close> is a \<open>BUG_ON\<close> that fired:
  the index is outside the array or the place is taken.
\<close>

fun unzip_fill_pagevec ::
  "(nat \<times> z_erofs_page_type) list \<Rightarrow> page_store \<Rightarrow> nat option list \<Rightarrow> nat list \<Rightarrow>
     (nat option list \<times> nat list) option" where
  "unzip_fill_pagevec [] ps pages pool = Some (pages, pool)"
| "unzip_fill_pagevec ((pg, page_type) # vec) ps pages pool =
     (if z_erofs_is_stagingpage (ps pg) then unzip_fill_pagevec vec ps pages (pg # pool)
      else
        (let pagenr = (if page_type = Z_EROFS_VLE_PAGE_TYPE_HEAD then 0 else online_index (ps pg))
         in if pagenr \<ge> length pages then None
            else if pages ! pagenr \<noteq> None then None
            else unzip_fill_pagevec vec ps (pages[pagenr := Some pg]) pool))"

text \<open>
  The first loop over the compressed slots. A staging page is passed over; a page of the
  managed cache is passed over too, and sets \<open>err = -EIO\<close> when it is not up to date; any
  other page is a destination page that was reused for compressed data and takes its
  place in \<open>pages\<close>. The state is \<open>pages\<close>, \<open>sparsemem_pages\<close>, \<open>overlapped\<close> and \<open>err\<close>.
  An empty slot is dereferenced by the code and counts as a \<open>BUG\<close> here.
\<close>

fun unzip_scan_compressed ::
  "bool \<Rightarrow> nat option list \<Rightarrow> page_store \<Rightarrow>
     nat option list \<times> nat \<times> bool \<times> errno option \<Rightarrow>
     (nat option list \<times> nat \<times> bool \<times> errno option) option" where
  "unzip_scan_compressed mngd [] ps st = Some st"
| "unzip_scan_compressed mngd (None # slots) ps st = None"
| "unzip_scan_compressed mngd (Some pg # slots) ps (pages, sparsemem_pages, overlapped, err) =
     (if z_erofs_is_stagingpage (ps pg) then
        unzip_scan_compressed mngd slots ps (pages, sparsemem_pages, overlapped, err)
      else if mngd \<and> mapping (ps pg) = MNGD_MAPPING then
        unzip_scan_compressed mngd slots ps
          (pages, sparsemem_pages, overlapped,
           (if \<not> PageUptodate (ps pg) then Some EIO else err))
      else
        (let pagenr = online_index (ps pg)
         in if pagenr \<ge> length pages then None
            else if pages ! pagenr \<noteq> None then None
            else unzip_scan_compressed mngd slots ps
                   (pages[pagenr := Some pg], sparsemem_pages + 1, True, err)))"

text \<open>
  \<open>__stagingpage_alloc\<close> for every empty place of \<open>pages\<close>: a page from the pool when
  there is one, a fresh page otherwise, marked as a staging page; the place stays empty
  when there is no page to be had.
\<close>

fun unzip_alloc_staging ::
  "nat option list \<Rightarrow> page_store \<Rightarrow> nat list \<Rightarrow> nat list \<Rightarrow>
     nat option list \<times> page_store \<times> nat list \<times> nat list" where
  "unzip_alloc_staging [] ps pool fresh = ([], ps, pool, fresh)"
| "unzip_alloc_staging (Some pg # pages) ps pool fresh =
     (case unzip_alloc_staging pages ps pool fresh of
        (pages', ps', pool', fresh') \<Rightarrow> (Some pg # pages', ps', pool', fresh'))"
| "unzip_alloc_staging (None # pages) ps pool fresh =
     (case (if pool \<noteq> [] then (Some (last pool), butlast pool, fresh)
            else (case fresh of [] \<Rightarrow> (None, pool, fresh)
                  | pg # fresh' \<Rightarrow> (Some pg, pool, fresh'))) of
        (None, pool1, fresh1) \<Rightarrow>
          (case unzip_alloc_staging pages ps pool1 fresh1 of
             (pages', ps', pool', fresh') \<Rightarrow> (None # pages', ps', pool', fresh'))
      | (Some pg, pool1, fresh1) \<Rightarrow>
          (case unzip_alloc_staging pages
                  (ps(pg := (ps pg)\<lparr>mapping := Z_EROFS_MAPPING_STAGING\<rparr>)) pool1 fresh1 of
             (pages', ps', pool', fresh') \<Rightarrow> (Some pg # pages', ps', pool', fresh')))"

text \<open>
  From the end of the two loops to the label \<open>out\<close>: nothing when \<open>err\<close> is set, the
  plain copy for a workgroup of that format, else the fast path and, when it answers
  \<open>-ENOTSUPP\<close>, the decompression through a virtual mapping of all destination pages.
  \<open>None\<close> is a \<open>BUG_ON\<close> that fired. The result carries \<open>err\<close>, \<open>pages\<close>, the page store,
  the pool and the routines that were called.
\<close>

definition unzip_decompress ::
  "unzip_env \<Rightarrow> z_erofs_vle_workgroup \<Rightarrow> page_store \<Rightarrow> nat list \<Rightarrow>
     nat option list \<Rightarrow> nat \<Rightarrow> errno option \<Rightarrow>
     (errno option \<times> nat option list \<times> page_store \<times> nat list \<times> unzip_event list) option" where
  "unzip_decompress env grp ps pool pages sparsemem_pages err =
     (if err \<noteq> None then Some (err, pages, ps, pool, [])
      else
        (let nr_pages = work_nr_pages grp;
             llen0 = (push_bit (PAGE_SHIFT env) (word_of_nat nr_pages) - word_of_nat (work_pageofs grp)
                      :: 32 word)
         in if fmt grp = Z_EROFS_VLE_WORKGRP_FMT_PLAIN then
              (if llen grp \<noteq> llen0 then None
               else Some (z_erofs_vle_plain_copy env, pages, ps, pool, [PLAIN_COPY]))
            else if z_erofs_vle_unzip_fast_percpu env \<noteq> Some ENOTSUPP then
              Some (z_erofs_vle_unzip_fast_percpu env, pages, ps, pool, [UNZIP_FAST_PERCPU])
            else if sparsemem_pages > nr_pages then None
            else
              (case (if sparsemem_pages \<ge> nr_pages then (pages, ps, pool, fresh_pages env)
                     else unzip_alloc_staging pages ps pool (fresh_pages env)) of
                 (pages', ps', pool', fresh') \<Rightarrow>
                   if \<not> erofs_vmap_ok env then
                     Some (Some ENOMEM, pages', ps', pool', [UNZIP_FAST_PERCPU])
                   else
                     Some (z_erofs_vle_unzip_vmap env, pages', ps', pool',
                           [UNZIP_FAST_PERCPU, UNZIP_VMAP]))))"

text \<open>
  The loop at \<open>out\<close> over the compressed slots: a page of the managed cache stays in its
  slot; a staging page goes back to the pool; every other slot is set to \<open>NULL\<close>.
\<close>

fun unzip_release_compressed ::
  "bool \<Rightarrow> nat option list \<Rightarrow> page_store \<Rightarrow> nat list \<Rightarrow> nat option list \<times> nat list" where
  "unzip_release_compressed mngd [] ps pool = ([], pool)"
| "unzip_release_compressed mngd (None # slots) ps pool =
     (case unzip_release_compressed mngd slots ps pool of
        (slots', pool') \<Rightarrow> (None # slots', pool'))"
| "unzip_release_compressed mngd (Some pg # slots) ps pool =
     (if mngd \<and> mapping (ps pg) = MNGD_MAPPING then
        (case unzip_release_compressed mngd slots ps pool of
           (slots', pool') \<Rightarrow> (Some pg # slots', pool'))
      else
        (case unzip_release_compressed mngd slots ps
                (if z_erofs_is_stagingpage (ps pg) then pg # pool else pool) of
           (slots', pool') \<Rightarrow> (None # slots', pool')))"

text \<open>
  The last loop, over \<open>pages\<close>: a staging page goes back to the pool; every other page
  gets its error flag when \<open>err\<close> is negative and has its online I/O ended.
\<close>

fun unzip_end_pages ::
  "nat option list \<Rightarrow> errno option \<Rightarrow> page_store \<Rightarrow> nat list \<Rightarrow> unzip_event list \<Rightarrow>
     page_store \<times> nat list \<times> unzip_event list" where
  "unzip_end_pages [] err ps pool trace = (ps, pool, trace)"
| "unzip_end_pages (None # pages) err ps pool trace = unzip_end_pages pages err ps pool trace"
| "unzip_end_pages (Some pg # pages) err ps pool trace =
     (if z_erofs_is_stagingpage (ps pg) then unzip_end_pages pages err ps (pg # pool) trace
      else
        (let p1 = (if err \<noteq> None then (ps pg)\<lparr>PageError := True\<rparr> else ps pg)
         in unzip_end_pages pages err (ps(pg := z_erofs_onlinepage_endio p1)) pool
              (trace @ [ENDIO pg])))"

datatype unzip_result =
    UNZIP_BUG
  | UNZIP_DONE "errno option" z_erofs_vle_workgroup page_store "nat list" "unzip_event list"

text \<open>
  \<open>z_erofs_vle_unzip\<close>. The result: a \<open>BUG\<close>, or the returned error with the workgroup,
  the page store, the page pool and the events of the pass in their order. Releasing the
  work takes one reference from the workgroup.
\<close>

definition z_erofs_vle_unzip ::
  "unzip_env \<Rightarrow> z_erofs_vle_workgroup \<Rightarrow> page_store \<Rightarrow> nat list \<Rightarrow> unzip_result" where
  "z_erofs_vle_unzip env grp ps page_pool =
     (if work_nr_pages grp = 0 then UNZIP_BUG
      else
        (case unzip_fill_pagevec (work_pagevec grp) ps
                (replicate (work_nr_pages grp) None) page_pool of
           None \<Rightarrow> UNZIP_BUG
         | Some (pages0, pool0) \<Rightarrow>
             (case unzip_scan_compressed (has_managed_cache env) (compressed_pages grp) ps
                     (pages0, work_vcnt grp, False, None) of
                None \<Rightarrow> UNZIP_BUG
              | Some (pages1, sparsemem_pages, overlapped, err0) \<Rightarrow>
                  (case unzip_decompress env grp ps pool0 pages1 sparsemem_pages err0 of
                     None \<Rightarrow> UNZIP_BUG
                   | Some (err, pages2, ps2, pool2, trace2) \<Rightarrow>
                       (case unzip_release_compressed (has_managed_cache env)
                               (compressed_pages grp) ps2 pool2 of
                          (slots3, pool3) \<Rightarrow>
                            (case unzip_end_pages pages2 err ps2 pool3 trace2 of
                               (ps4, pool4, trace4) \<Rightarrow>
                                 UNZIP_DONE err
                                   (grp\<lparr>compressed_pages := slots3,
                                        work_nr_pages := 0,
                                        work_vcnt := 0,
                                        work_pagevec := [],
                                        workgrp_next := Z_EROFS_VLE_WORKGRP_NIL,
                                        work_lock := False,
                                        obj_refcount := obj_refcount grp - 1\<rparr>)
                                   ps4 pool4 trace4))))))"

text \<open>
  The destination pages of a pass, from the spec: the pages of the page vector and the
  compressed slots that double as destination pages, staging pages and pages of the
  managed cache apart.
\<close>

definition destination_pages :: "bool \<Rightarrow> z_erofs_vle_workgroup \<Rightarrow> page_store \<Rightarrow> nat list" where
  "destination_pages mngd grp ps =
     [pg. (pg, page_type) \<leftarrow> work_pagevec grp, \<not> z_erofs_is_stagingpage (ps pg)] @
     [pg. Some pg \<leftarrow> compressed_pages grp,
          \<not> z_erofs_is_stagingpage (ps pg) \<and> \<not> (mngd \<and> mapping (ps pg) = MNGD_MAPPING)]"

subsection \<open>A pass with a failed cached page\<close>

text \<open>
  A cluster of two blocks that decompresses into two file pages (20 and 21). Its first
  compressed page (11) belongs to the managed cache and its read failed: the page is not
  up to date and carries the error flag. The second compressed page (30) is a staging
  page.
\<close>

definition failed_env :: unzip_env where
  "failed_env =
     \<lparr>has_managed_cache = True, PAGE_SHIFT = 12,
      z_erofs_vle_plain_copy = None, z_erofs_vle_unzip_fast_percpu = None,
      erofs_vmap_ok = True, z_erofs_vle_unzip_vmap = None, fresh_pages = []\<rparr>"

definition file_page :: "nat \<Rightarrow> page" where
  "file_page i =
     \<lparr>mapping = FILE_MAPPING, PageLocked = True, PageUptodate = False, PageError = False,
      PagePrivate = True, page_private = 0, page_count = 2, online_index = i, online_count = 1\<rparr>"

definition failed_store :: page_store where
  "failed_store a =
     (if a = 11 then cached_page\<lparr>PageUptodate := False, PageError := True\<rparr>
      else if a = 30 then (file_page 0)\<lparr>mapping := Z_EROFS_MAPPING_STAGING\<rparr>
      else if a = 21 then file_page 1
      else file_page 0)"

definition failed_grp :: z_erofs_vle_workgroup where
  "failed_grp =
     \<lparr>obj_index = 7, obj_refcount = 1, workgrp_next = Z_EROFS_VLE_WORKGRP_TAIL_CLOSED,
      compressed_pages = [Some 11, Some 30], llen = 8192, fmt = Z_EROFS_VLE_WORKGRP_FMT_LZ4,
      work_lock = False, work_pageofs = 0, work_nr_pages = 2, work_vcnt = 2,
      work_pagevec = [(20, Z_EROFS_VLE_PAGE_TYPE_HEAD), (21, Z_EROFS_PAGE_TYPE_EXCLUSIVE)]\<rparr>"

text \<open>The same cluster with both file pages entered in the page vector as pages of type HEAD.\<close>

definition two_heads_grp :: z_erofs_vle_workgroup where
  "two_heads_grp =
     failed_grp\<lparr>work_pagevec :=
       [(20, Z_EROFS_VLE_PAGE_TYPE_HEAD), (21, Z_EROFS_VLE_PAGE_TYPE_HEAD)]\<rparr>"

subsection \<open>A page that lies across two extents\<close>





section \<open>Properties of the extent index resolver\<close>

lemma word_sub_decreases:
  fixes l d :: "32 word"
  assumes "d \<noteq> 0" and "d \<le> l"
  shows "unat (l - d) < unat l" and "l - d < l"
proof -
  have "0 < unat d" and "unat d \<le> unat l"
    using assms by (simp_all add: unat_gt_0 word_le_nat_alt)
  moreover have "unat (l - d) = unat l - unat d"
    using assms(2) by (simp add: unat_sub)
  ultimately show "unat (l - d) < unat l" by simp
  then show "l - d < l" by (simp add: word_less_nat_alt)
qed

lemma head_NONHEAD_step:
  fixes delta0 :: "32 word"
  assumes "head_meta_page ctx mpage lcn = Inr mp"
    and "vle_cluster_type ctx (kaddr mp (unat (vle_extent_blkoff ctx lcn))) =
           Z_EROFS_VLE_CLUSTER_TYPE_NONHEAD"
    and "ucast (di_u_delta0 (kaddr mp (unat (vle_extent_blkoff ctx lcn)))) = delta0"
  shows "vle_get_logical_extent_head ctx mpage lcn flags =
          (if delta0 = 0 \<or> lcn < delta0 then (Inl EIO, Some mp)
           else vle_get_logical_extent_head ctx mp (lcn - delta0) flags)"
  using assms by (subst vle_get_logical_extent_head.simps) (simp add: Let_def)

lemma head_fuel_NONHEAD_step:
  fixes delta0 :: "32 word"
  assumes "head_meta_page ctx mpage lcn = Inr mp"
    and "vle_cluster_type ctx (kaddr mp (unat (vle_extent_blkoff ctx lcn))) =
           Z_EROFS_VLE_CLUSTER_TYPE_NONHEAD"
    and "ucast (di_u_delta0 (kaddr mp (unat (vle_extent_blkoff ctx lcn)))) = delta0"
  shows "vle_get_logical_extent_head_fuel (Suc fuel) ctx mpage lcn flags =
          (if delta0 = 0 \<or> lcn < delta0 then Some (Inl EIO, Some mp)
           else vle_get_logical_extent_head_fuel fuel ctx mp (lcn - delta0) flags)"
  using assms by (subst vle_get_logical_extent_head_fuel.simps) (simp add: Let_def)

lemma head_fuel_no_recursion:
  assumes "\<And>mp. head_meta_page ctx mpage lcn = Inr mp \<Longrightarrow>
           vle_cluster_type ctx (kaddr mp (unat (vle_extent_blkoff ctx lcn))) \<noteq>
             Z_EROFS_VLE_CLUSTER_TYPE_NONHEAD"
  shows "vle_get_logical_extent_head_fuel (Suc fuel) ctx mpage lcn flags =
           Some (vle_get_logical_extent_head ctx mpage lcn flags)"
proof (cases "head_meta_page ctx mpage lcn")
  case (Inl e)
  then show ?thesis
    by (subst vle_get_logical_extent_head.simps, subst vle_get_logical_extent_head_fuel.simps) simp
next
  case (Inr mp)
  with assms have "vle_cluster_type ctx (kaddr mp (unat (vle_extent_blkoff ctx lcn))) \<noteq>
      Z_EROFS_VLE_CLUSTER_TYPE_NONHEAD" by simp
  with Inr show ?thesis
    by (subst vle_get_logical_extent_head.simps, subst vle_get_logical_extent_head_fuel.simps)
       (simp add: Let_def split: vle_cluster_type.split prod.split)
qed

lemma head_fuel_enough:
  "unat lcn < fuel \<Longrightarrow>
   vle_get_logical_extent_head_fuel fuel ctx mpage lcn flags =
     Some (vle_get_logical_extent_head ctx mpage lcn flags)"
proof (induction fuel arbitrary: mpage lcn)
  case 0
  then show ?case by simp
next
  case (Suc fuel)
  show ?case
  proof (cases "head_meta_page ctx mpage lcn")
    case (Inl e)
    then show ?thesis
      by (intro head_fuel_no_recursion) simp
  next
    case (Inr mp)
    define delta0 where
      "delta0 = (ucast (di_u_delta0 (kaddr mp (unat (vle_extent_blkoff ctx lcn)))) :: 32 word)"
    show ?thesis
    proof (cases "vle_cluster_type ctx (kaddr mp (unat (vle_extent_blkoff ctx lcn))) =
                    Z_EROFS_VLE_CLUSTER_TYPE_NONHEAD")
      case True
      note st = head_NONHEAD_step [OF Inr True delta0_def [symmetric]]
        head_fuel_NONHEAD_step [OF Inr True delta0_def [symmetric]]
      show ?thesis
      proof (cases "delta0 = 0 \<or> lcn < delta0")
        case True
        then show ?thesis by (simp add: st)
      next
        case False
        then have "unat (lcn - delta0) < unat lcn"
          by (simp add: word_sub_decreases not_less)
        with Suc.prems have "unat (lcn - delta0) < fuel" by simp
        from Suc.IH [OF this] False show ?thesis by (simp add: st)
      qed
    next
      case False
      then show ?thesis
        by (intro head_fuel_no_recursion) (simp add: Inr)
    qed
  qed
qed

text \<open>
  Claim C1. The head walk terminates for every index table and every starting cluster:
  with fuel for \<open>lcn + 1\<close> nested calls it returns, and returns what the function
  returns. It does so because a call that recurses read a NONHEAD record whose delta is
  nonzero and at most \<open>lcn\<close>, and then continues at \<open>lcn - delta0\<close>, strictly below
  \<open>lcn\<close>; a NONHEAD record whose delta is zero or above \<open>lcn\<close> ends the walk with \<open>-EIO\<close>.
\<close>

theorem head_walk_terminates:
  "vle_get_logical_extent_head_fuel (Suc (unat lcn)) ctx mpage lcn flags =
     Some (vle_get_logical_extent_head ctx mpage lcn flags) \<and>
   (\<forall>mp (delta0 :: 32 word).
      head_meta_page ctx mpage lcn = Inr mp \<and>
      vle_cluster_type ctx (kaddr mp (unat (vle_extent_blkoff ctx lcn))) =
        Z_EROFS_VLE_CLUSTER_TYPE_NONHEAD \<and>
      ucast (di_u_delta0 (kaddr mp (unat (vle_extent_blkoff ctx lcn)))) = delta0 \<longrightarrow>
      (if delta0 \<noteq> 0 \<and> delta0 \<le> lcn
       then lcn - delta0 < lcn \<and>
            vle_get_logical_extent_head ctx mpage lcn flags =
              vle_get_logical_extent_head ctx mp (lcn - delta0) flags
       else vle_get_logical_extent_head ctx mpage lcn flags = (Inl EIO, Some mp)))"
proof (intro conjI allI impI)
  show "vle_get_logical_extent_head_fuel (Suc (unat lcn)) ctx mpage lcn flags =
     Some (vle_get_logical_extent_head ctx mpage lcn flags)"
    by (rule head_fuel_enough) simp
next
  fix mp and delta0 :: "32 word"
  assume a: "head_meta_page ctx mpage lcn = Inr mp \<and>
      vle_cluster_type ctx (kaddr mp (unat (vle_extent_blkoff ctx lcn))) =
        Z_EROFS_VLE_CLUSTER_TYPE_NONHEAD \<and>
      ucast (di_u_delta0 (kaddr mp (unat (vle_extent_blkoff ctx lcn)))) = delta0"
  then have step: "vle_get_logical_extent_head ctx mpage lcn flags =
          (if delta0 = 0 \<or> lcn < delta0 then (Inl EIO, Some mp)
           else vle_get_logical_extent_head ctx mp (lcn - delta0) flags)"
    by (intro head_NONHEAD_step) simp_all
  show "if delta0 \<noteq> 0 \<and> delta0 \<le> lcn
       then lcn - delta0 < lcn \<and>
            vle_get_logical_extent_head ctx mpage lcn flags =
              vle_get_logical_extent_head ctx mp (lcn - delta0) flags
       else vle_get_logical_extent_head ctx mpage lcn flags = (Inl EIO, Some mp)"
    using step by (auto simp add: word_sub_decreases not_le)
qed

lemmas resolver_eval =
  vle_get_logical_extent_head.simps head_meta_page_def map_meta_page_def
  vle_extent_blkaddr_def vle_extent_blkoff_def vle_extent_ofs_def erofs_blknr_def erofs_blkoff_def
  blknr_to_addr_def vle_cluster_type_def cluster_type_numbering_def vle_cluster_advise_def
  vle_huawei_compat_previous_clusters_def vle_decompressed_index_clusterofs_def
  di_u_delta0_def di_u_blkaddr_def head_case_HEAD_def clustersize_of_def flags_xor_def
  map_exact_hitted_def map_nonhead_def map_case_HEAD_def map_case_HUAWEI_COMPAT_def
  z_erofs_map_blocks_iter_def Let_def
  index_ctx_def index_page_def di_HEAD_def di_PLAIN_def di_NONHEAD_def initial_map_def

lemma valid_chain_head:
  "vle_get_logical_extent_head (index_ctx False 20000 valid_chain) (index_page valid_chain) 3 {} =
     (Inr (100, 7, {}), Some (index_page valid_chain))"
  by (simp add: resolver_eval valid_chain_def)

lemma corrupt_chain_head:
  "vle_get_logical_extent_head (index_ctx False 20000 corrupt_chain) (index_page corrupt_chain) 3 {} =
     (Inl EIO, Some (index_page corrupt_chain))"
  by (simp add: resolver_eval corrupt_chain_def)

theorem head_walk_terminates_witness:
  "vle_get_logical_extent_head_fuel 4 (index_ctx False 20000 valid_chain)
       (index_page valid_chain) 3 {} =
     Some (Inr (100, 7, {}), Some (index_page valid_chain)) \<and>
   vle_get_logical_extent_head_fuel 4 (index_ctx False 20000 corrupt_chain)
       (index_page corrupt_chain) 3 {} =
     Some (Inl EIO, Some (index_page corrupt_chain))"
proof -
  have four: "Suc (unat (3 :: 32 word)) = 4" by simp
  show ?thesis
    using head_walk_terminates [of 3 "index_ctx False 20000 valid_chain" "index_page valid_chain" "{}"]
      head_walk_terminates [of 3 "index_ctx False 20000 corrupt_chain" "index_page corrupt_chain" "{}"]
    unfolding four valid_chain_head corrupt_chain_head by simp
qed

lemma word64_max_uint: "uint (la :: 64 word) = 18446744073709551615 \<Longrightarrow> la = - 1"
proof -
  assume a: "uint la = 18446744073709551615"
  have "la = word_of_int (uint la)" by simp
  also have "\<dots> = - 1" unfolding a by simp
  finally show ?thesis .
qed

lemma eof_length_int:
  fixes la isz :: "64 word"
  assumes le: "isz \<le> la" and ne: "la \<noteq> - 1 \<or> isz \<noteq> 0"
  shows "uint (la + 1 - isz) = uint la + 1 - uint isz"
proof -
  have mod_eq: "uint (la + 1 - isz) = (uint la + 1 - uint isz) mod 2 ^ 64"
    by (simp add: uint_word_ariths mod_diff_left_eq)
  have lo: "uint isz \<le> uint la"
    using le by (simp add: word_le_def)
  have hi: "uint la < 2 ^ 64"
    using uint_lt2p [of la] by simp
  have "uint la \<noteq> 2 ^ 64 - 1 \<or> uint isz \<noteq> 0"
  proof (rule ccontr)
    assume "\<not> ?thesis"
    then have a: "uint la = 18446744073709551615" and b: "uint isz = 0" by simp_all
    from b have "isz = 0" by (simp add: uint_0_iff)
    moreover from a have "la = - 1" by (rule word64_max_uint)
    ultimately show False using ne by simp
  qed
  moreover have "0 \<le> uint isz" by simp
  ultimately have "uint la + 1 - uint isz < 2 ^ 64" and "0 \<le> uint la + 1 - uint isz"
    using lo hi by arith+
  then show ?thesis
    using mod_eq by simp
qed

text \<open>
  Claim C3. An initial call (\<open>m_llen = 0\<close>) of \<open>z_erofs_map_blocks_iter\<close> whose \<open>m_la\<close> is
  at or beyond the inode size returns 0, leaves the mapping unmapped (\<open>m_flags = 0\<close>, so
  without \<open>EROFS_MAP_MAPPED\<close>), sets \<open>m_la\<close> to the inode size and \<open>m_llen\<close> to
  \<open>m_la + 1 - i_size\<close>, computed on 64 bits as the code does. Read on unbounded integers
  the length is the same, except for the one input where the 64-bit sum wraps to the
  whole range (\<open>m_la = 2^64 - 1\<close> with an empty file). Physical offset, physical length
  and the metadata page are not touched.
\<close>

theorem eof_read_is_unmapped:
  assumes "m_llen m = 0" and "i_size ctx \<le> m_la m"
  shows "case z_erofs_map_blocks_iter ctx m mpage of (err, m', mpage') \<Rightarrow>
     err = None \<and> EROFS_MAP_MAPPED \<notin> m_flags m' \<and> m_flags m' = {} \<and>
     m_la m' = i_size ctx \<and>
     m_llen m' = m_la m + 1 - i_size ctx \<and>
     (m_la m \<noteq> - 1 \<or> i_size ctx \<noteq> 0 \<longrightarrow>
        uint (m_llen m') = uint (m_la m) + 1 - uint (i_size ctx)) \<and>
     m_pa m' = m_pa m \<and> m_plen m' = m_plen m \<and> mpage' = mpage"
  using assms eof_length_int [of "i_size ctx" "m_la m"]
  by (simp add: z_erofs_map_blocks_iter_def)

theorem eof_read_is_unmapped_witness:
  "m_llen eof_map = 0 \<and> i_size eof_ctx \<le> m_la eof_map \<and>
   z_erofs_map_blocks_iter eof_ctx eof_map None =
     (None, \<lparr>m_pa = 0, m_la = 10000, m_plen = 0, m_llen = 2288, m_flags = {}\<rparr>, None)"
  using eof_read_is_unmapped [of eof_map eof_ctx None]
  by (simp add: eof_map_def eof_ctx_def z_erofs_map_blocks_iter_def)


lemma head_reaches_invalid_delta:
  assumes "head_reaches ctx mpage lcn mp' lcn'"
    and "vle_cluster_type ctx (record_at ctx mp' lcn') = Z_EROFS_VLE_CLUSTER_TYPE_NONHEAD"
    and "invalid_delta (record_at ctx mp' lcn') lcn'"
  shows "vle_get_logical_extent_head ctx mpage lcn flags = (Inl EIO, Some mp')"
  using assms
proof (induction rule: head_reaches.induct)
  case (here mpage lcn mp)
  then show ?case
    by (subst head_NONHEAD_step [OF here.hyps _ refl])
       (auto simp add: record_at_def invalid_delta_def)
next
  case (follow mpage lcn mp delta0 mp' lcn')
  have "\<not> (delta0 = 0 \<or> lcn < delta0)"
    using follow.hyps(4,5) by (simp add: not_less)
  then have "vle_get_logical_extent_head ctx mpage lcn flags =
       vle_get_logical_extent_head ctx mp (lcn - delta0) flags"
    using head_NONHEAD_step [OF follow.hyps(1,2) follow.hyps(3) [symmetric], of flags]
    by simp
  with follow.IH follow.prems show ?case by simp
qed

lemma map_nonhead_error:
  "vle_get_logical_extent_head ctx mp lcn (m_flags m) = (Inl e, p) \<Longrightarrow>
   map_nonhead ctx m mp lcn lend = (Some e, m, p)"
  by (simp add: map_nonhead_def)

lemma map_nonhead_error_keeps:
  "map_nonhead ctx m mp lcn lend = (Some e, m', p) \<Longrightarrow> m' = m"
  by (auto simp add: map_nonhead_def split: prod.splits sum.splits)

lemma map_case_HEAD_error_keeps:
  "map_case_HEAD ctx m mp di lcn ofs ofs_rem lco = (Some e, m', p) \<Longrightarrow> m' = m"
  by (auto simp add: map_case_HEAD_def Let_def split: if_splits dest: map_nonhead_error_keeps)

lemma map_case_HUAWEI_COMPAT_error_keeps:
  "map_case_HUAWEI_COMPAT ctx m mp di lcn ofs ofs_rem lco = (Some e, m', p) \<Longrightarrow> m' = m"
  by (auto simp add: map_case_HUAWEI_COMPAT_def Let_def split: if_splits
      dest: map_nonhead_error_keeps map_case_HEAD_error_keeps)

lemma map_blocks_iter_error_keeps:
  assumes "z_erofs_map_blocks_iter ctx m mpage = (Some e, m', p)"
  shows "m_la m' = m_la m \<and> m_llen m' = m_llen m \<and> m_pa m' = m_pa m \<and>
         m_plen m' = m_plen m \<and>
         (EROFS_MAP_MAPPED \<in> m_flags m' \<longleftrightarrow> EROFS_MAP_MAPPED \<in> m_flags m)"
  using assms
  by (auto simp add: z_erofs_map_blocks_iter_def Let_def flags_xor_def
      split: if_splits sum.splits vle_cluster_type.splits
      dest!: map_nonhead_error_keeps map_case_HEAD_error_keeps map_case_HUAWEI_COMPAT_error_keeps)


lemma map_meta_page_head:
  assumes "map_meta_page ctx mpage (vle_extent_blkaddr ctx lcn) = Inr mp"
  shows "head_meta_page ctx mp lcn = Inr mp"
  using assms
  by (auto simp add: map_meta_page_def head_meta_page_def Let_def split: option.splits if_splits)

lemma invalid_delta_at_zero: "invalid_delta di 0"
  by (auto simp add: invalid_delta_def word_gt_0)

lemma initial_NONHEAD_enters_walk:
  assumes "m_llen m = 0" and "m_la m < i_size ctx"
    and "map_meta_page ctx mpg (vle_extent_blkaddr ctx (requested_lcn ctx m)) = Inr mp"
    and "vle_cluster_type ctx (record_at ctx mp (requested_lcn ctx m)) =
           Z_EROFS_VLE_CLUSTER_TYPE_NONHEAD"
  shows "z_erofs_map_blocks_iter ctx m mpg =
           map_nonhead ctx (m\<lparr>m_flags := insert EROFS_MAP_ZIPPED (m_flags m)\<rparr>) mp
             (requested_lcn ctx m)
             ((ucast (requested_lcn ctx m) + 1) * ucast (clustersize_of ctx))"
  using assms
  by (simp add: z_erofs_map_blocks_iter_def Let_def requested_lcn_def record_at_def
      vle_decompressed_index_clusterofs_def not_le [symmetric])

text \<open>
  Claim C2, as the code has it. A NONHEAD record that the head walk decodes, whatever the
  entry of the walk, is checked: when its delta is zero or exceeds its own cluster number
  (always so at cluster 0) the walk returns \<open>-EIO\<close>, the \<open>nonhead\<close> label of
  \<open>z_erofs_map_blocks_iter\<close> passes that error on and leaves the mapping as it was, and an
  initial resolve that finds a NONHEAD record at the requested cluster returns \<open>-EIO\<close> for
  every such record on its way to the head. No error return of
  \<open>z_erofs_map_blocks_iter\<close> produces a mapping: offsets and lengths keep their values and
  \<open>EROFS_MAP_MAPPED\<close> is not changed.
\<close>

theorem nonhead_delta_checked:
  assumes reach: "head_reaches ctx mpage lcn mp' lcn'"
    and nh: "vle_cluster_type ctx (record_at ctx mp' lcn') = Z_EROFS_VLE_CLUSTER_TYPE_NONHEAD"
    and bad: "lcn' = 0 \<or> invalid_delta (record_at ctx mp' lcn') lcn'"
  shows "vle_get_logical_extent_head ctx mpage lcn flags = (Inl EIO, Some mp') \<and>
         map_nonhead ctx m mpage lcn lend = (Some EIO, m, Some mp') \<and>
         (m_llen m = 0 \<and> m_la m < i_size ctx \<and> lcn = requested_lcn ctx m \<and>
          map_meta_page ctx mpg (vle_extent_blkaddr ctx lcn) = Inr mpage \<and>
          vle_cluster_type ctx (record_at ctx mpage lcn) = Z_EROFS_VLE_CLUSTER_TYPE_NONHEAD \<longrightarrow>
            z_erofs_map_blocks_iter ctx m mpg =
              (Some EIO, m\<lparr>m_flags := insert EROFS_MAP_ZIPPED (m_flags m)\<rparr>, Some mp')) \<and>
         (\<forall>e m' p. z_erofs_map_blocks_iter ctx m mpg = (Some e, m', p) \<longrightarrow>
            m_la m' = m_la m \<and> m_llen m' = m_llen m \<and> m_pa m' = m_pa m \<and>
            m_plen m' = m_plen m \<and>
            (EROFS_MAP_MAPPED \<in> m_flags m' \<longleftrightarrow> EROFS_MAP_MAPPED \<in> m_flags m))"
proof -
  from bad have inv: "invalid_delta (record_at ctx mp' lcn') lcn'"
    using invalid_delta_at_zero by auto
  have walk: "\<And>fl. vle_get_logical_extent_head ctx mpage lcn fl = (Inl EIO, Some mp')"
    using reach nh inv by (rule head_reaches_invalid_delta)
  have label: "\<And>m0. map_nonhead ctx m0 mpage lcn lend = (Some EIO, m0, Some mp')"
    by (rule map_nonhead_error) (rule walk)
  have initial: "z_erofs_map_blocks_iter ctx m mpg =
              (Some EIO, m\<lparr>m_flags := insert EROFS_MAP_ZIPPED (m_flags m)\<rparr>, Some mp')"
    if "m_llen m = 0" "m_la m < i_size ctx" "lcn = requested_lcn ctx m"
      "map_meta_page ctx mpg (vle_extent_blkaddr ctx lcn) = Inr mpage"
      "vle_cluster_type ctx (record_at ctx mpage lcn) = Z_EROFS_VLE_CLUSTER_TYPE_NONHEAD"
  proof -
    have "z_erofs_map_blocks_iter ctx m mpg =
           map_nonhead ctx (m\<lparr>m_flags := insert EROFS_MAP_ZIPPED (m_flags m)\<rparr>) mpage lcn
             ((ucast lcn + 1) * ucast (clustersize_of ctx))"
      using that initial_NONHEAD_enters_walk [of m ctx mpg mpage] by simp
    then show ?thesis
      by (simp add: map_nonhead_error [OF walk])
  qed
  show ?thesis
    using walk label initial map_blocks_iter_error_keeps [of ctx m mpg] by blast
qed

lemma corrupt_chain_reach:
  "head_reaches (index_ctx False 20000 corrupt_chain) (index_page corrupt_chain) 3
     (index_page corrupt_chain) 1"
proof -
  let ?c = "index_ctx False 20000 corrupt_chain" and ?p = "index_page corrupt_chain"
  have r1: "head_reaches ?c ?p 1 ?p 1"
    by (rule head_reaches.here) (simp add: resolver_eval)
  have r2: "head_reaches ?c ?p 2 ?p 1"
    using head_reaches.follow [of ?c ?p 2 ?p 1 ?p 1] r1
    by (simp add: resolver_eval corrupt_chain_def)
  show ?thesis
    using head_reaches.follow [of ?c ?p 3 ?p 1 ?p 1] r2
    by (simp add: resolver_eval corrupt_chain_def)
qed


theorem nonhead_delta_checked_witness:
  "head_reaches (index_ctx False 20000 corrupt_chain) (index_page corrupt_chain) 3
     (index_page corrupt_chain) 1 \<and>
   vle_cluster_type (index_ctx False 20000 corrupt_chain)
     (record_at (index_ctx False 20000 corrupt_chain) (index_page corrupt_chain) 1) =
     Z_EROFS_VLE_CLUSTER_TYPE_NONHEAD \<and>
   invalid_delta (record_at (index_ctx False 20000 corrupt_chain) (index_page corrupt_chain) 1) 1 \<and>
   vle_get_logical_extent_head (index_ctx False 20000 corrupt_chain) (index_page corrupt_chain) 3 {} =
     (Inl EIO, Some (index_page corrupt_chain)) \<and>
   z_erofs_map_blocks_iter (index_ctx False 20000 corrupt_chain) (initial_map 12388) None =
     (Some EIO, (initial_map 12388)\<lparr>m_flags := insert EROFS_MAP_ZIPPED (m_flags (initial_map 12388))\<rparr>,
      Some (index_page corrupt_chain))"
proof -
  let ?c = "index_ctx False 20000 corrupt_chain" and ?p = "index_page corrupt_chain"
  have nh: "vle_cluster_type ?c (record_at ?c ?p 1) = Z_EROFS_VLE_CLUSTER_TYPE_NONHEAD"
    by (simp add: resolver_eval record_at_def corrupt_chain_def)
  have bad: "invalid_delta (record_at ?c ?p 1) 1"
    by (simp add: resolver_eval record_at_def invalid_delta_def corrupt_chain_def)
  have pre: "m_llen (initial_map 12388) = 0 \<and> m_la (initial_map 12388) < i_size ?c \<and>
       3 = requested_lcn ?c (initial_map 12388) \<and>
       map_meta_page ?c None (vle_extent_blkaddr ?c 3) = Inr ?p \<and>
       vle_cluster_type ?c (record_at ?c ?p 3) = Z_EROFS_VLE_CLUSTER_TYPE_NONHEAD"
    by (simp add: resolver_eval record_at_def requested_lcn_def corrupt_chain_def drop_bit_eq_div)
  note all = nonhead_delta_checked [OF corrupt_chain_reach nh disjI2 [OF bad],
        of "{}" "initial_map 12388" 0 None]
  note walk = all [THEN conjunct1]
  note iter = all [THEN conjunct2, THEN conjunct2, THEN conjunct1, THEN mp, OF pre]
  show ?thesis
    by (intro conjI corrupt_chain_reach nh bad walk iter)
qed

text \<open>
  Claim C2 as stated covers every NONHEAD record reached during resolution. In walking
  mode \<open>z_erofs_map_blocks_iter\<close> decodes the record of the next cluster only for its
  cluster offset and never looks at the delta: a NONHEAD record at cluster 0 with a zero
  delta is accepted and the call returns 0 with the length advanced.
\<close>

theorem nonhead_delta_checked_counterexample:
  "vle_cluster_type (index_ctx False 20000 nonhead_first_chain)
     (record_at (index_ctx False 20000 nonhead_first_chain) (index_page nonhead_first_chain) 0) =
     Z_EROFS_VLE_CLUSTER_TYPE_NONHEAD \<and>
   invalid_delta
     (record_at (index_ctx False 20000 nonhead_first_chain) (index_page nonhead_first_chain) 0) 0 \<and>
   requested_lcn (index_ctx False 20000 nonhead_first_chain) walking_map = 0 \<and>
   z_erofs_map_blocks_iter (index_ctx False 20000 nonhead_first_chain) walking_map None =
     (None, walking_map\<lparr>m_llen := 4097\<rparr>, Some (index_page nonhead_first_chain))"
  by (simp add: resolver_eval record_at_def requested_lcn_def invalid_delta_def
      nonhead_first_chain_def walking_map_def)





lemma initial_PLAIN_unfold:
  assumes "m_llen m = 0" and "m_la m < i_size ctx"
    and "map_meta_page ctx mpg (vle_extent_blkaddr ctx (requested_lcn ctx m)) = Inr mp"
    and "vle_cluster_type ctx (record_at ctx mp (requested_lcn ctx m)) = Z_EROFS_VLE_CLUSTER_TYPE_PLAIN"
    and "huawei_extension ctx \<longrightarrow>
           vle_huawei_compat_previous_clusters (clustersize_of ctx)
             (record_at ctx mp (requested_lcn ctx m)) = 0"
  shows "z_erofs_map_blocks_iter ctx m mpg =
           map_case_HEAD ctx
             (m\<lparr>m_flags := (if ucast (di_clusterofs (record_at ctx mp (requested_lcn ctx m)))
                                  \<le> requested_ofs_rem ctx m
                              then m_flags m - {EROFS_MAP_ZIPPED}
                              else insert EROFS_MAP_ZIPPED (m_flags m))\<rparr>)
             mp (record_at ctx mp (requested_lcn ctx m)) (requested_lcn ctx m) (m_la m)
             (requested_ofs_rem ctx m)
             (ucast (di_clusterofs (record_at ctx mp (requested_lcn ctx m))))"
  using assms
  by (simp add: z_erofs_map_blocks_iter_def Let_def requested_lcn_def record_at_def
      requested_ofs_rem_def vle_decompressed_index_clusterofs_def flags_xor_def
      map_case_HUAWEI_COMPAT_def not_le [symmetric])

lemma initial_PLAIN_compat_unfold:
  assumes "m_llen m = 0" and "m_la m < i_size ctx"
    and "map_meta_page ctx mpg (vle_extent_blkaddr ctx (requested_lcn ctx m)) = Inr mp"
    and "vle_cluster_type ctx (record_at ctx mp (requested_lcn ctx m)) = Z_EROFS_VLE_CLUSTER_TYPE_PLAIN"
    and "huawei_extension ctx"
    and "vle_huawei_compat_previous_clusters (clustersize_of ctx)
             (record_at ctx mp (requested_lcn ctx m)) \<noteq> 0"
  shows "z_erofs_map_blocks_iter ctx m mpg =
           map_nonhead ctx
             (m\<lparr>m_flags := (if ucast (di_clusterofs (record_at ctx mp (requested_lcn ctx m)))
                                  \<le> requested_ofs_rem ctx m
                              then m_flags m - {EROFS_MAP_ZIPPED}
                              else insert EROFS_MAP_ZIPPED (m_flags m))\<rparr>)
             mp (requested_lcn ctx m - 1)
             ((ucast (requested_lcn ctx m) + 1) * ucast (clustersize_of ctx))"
  using assms
  by (simp add: z_erofs_map_blocks_iter_def Let_def requested_lcn_def record_at_def
      requested_ofs_rem_def vle_decompressed_index_clusterofs_def flags_xor_def
      map_case_HUAWEI_COMPAT_def not_le [symmetric])

lemma initial_HEAD_unfold:
  assumes "m_llen m = 0" and "m_la m < i_size ctx"
    and "map_meta_page ctx mpg (vle_extent_blkaddr ctx (requested_lcn ctx m)) = Inr mp"
    and "vle_cluster_type ctx (record_at ctx mp (requested_lcn ctx m)) = Z_EROFS_VLE_CLUSTER_TYPE_HEAD"
  shows "z_erofs_map_blocks_iter ctx m mpg =
           map_case_HEAD ctx (m\<lparr>m_flags := insert EROFS_MAP_ZIPPED (m_flags m)\<rparr>)
             mp (record_at ctx mp (requested_lcn ctx m)) (requested_lcn ctx m) (m_la m)
             (requested_ofs_rem ctx m)
             (ucast (di_clusterofs (record_at ctx mp (requested_lcn ctx m))))"
  using assms
  by (simp add: z_erofs_map_blocks_iter_def Let_def requested_lcn_def record_at_def
      requested_ofs_rem_def vle_decompressed_index_clusterofs_def not_le [symmetric])

lemma map_case_HEAD_hit:
  assumes "lco \<le> ofs_rem"
  shows "case map_case_HEAD ctx m0 mp di lcn ofs ofs_rem lco of (err, m', p) \<Rightarrow>
           err = None \<and> p = Some mp \<and> m_flags m' = insert EROFS_MAP_MAPPED (m_flags m0)"
  using assms
  by (auto simp add: map_case_HEAD_def Let_def map_exact_hitted_def)

lemma map_case_HEAD_before:
  assumes "ofs_rem < lco"
  shows "map_case_HEAD ctx m0 mp di lcn ofs ofs_rem lco =
           (if lcn = 0 then (Some EIO, m0, Some mp)
            else map_nonhead ctx m0 mp (lcn - 1)
                   ((ucast lcn * ucast (clustersize_of ctx)) OR ucast lco))"
  using assms
  by (auto simp add: map_case_HEAD_def Let_def)


text \<open>
  Claim C7, as the code has it. In an initial resolve below the inode size, a HEAD record
  at the requested cluster runs the HEAD case with the compressed flag set. A PLAIN
  record whose packed count of previous clusters is zero (always so for the resolver
  built without the compatibility extension) runs the same HEAD case, with the compressed
  flag cleared exactly when the remainder of the requested offset is at or after the
  record's clusterofs: then the call succeeds with a mapping that is mapped and not
  compressed, where the HEAD record gives one that is compressed. When the remainder is
  before clusterofs the flag stays set and the call is the walk backward of the HEAD
  case: \<open>-EIO\<close> at cluster 0, the head walk from \<open>lcn - 1\<close> otherwise. With the extension
  compiled in, every PLAIN record whose packed count is not zero goes to the label
  \<open>nonhead\<close>, whatever the remainder: the call is the head walk from \<open>lcn - 1\<close> with the
  end of the extent at the end of cluster \<open>lcn\<close>, entered with the flag as the comparison
  left it.
\<close>

theorem plain_record_toggles_zipped:
  assumes "m_llen m = 0" and "m_la m < i_size ctx"
    and "map_meta_page ctx mpg (vle_extent_blkaddr ctx (requested_lcn ctx m)) = Inr mp"
    and "di = record_at ctx mp (requested_lcn ctx m)"
    and "logical_cluster_ofs = ucast (di_clusterofs di)"
    and "ofs_rem = requested_ofs_rem ctx m"
    and "lcn = requested_lcn ctx m"
  shows
    "(vle_cluster_type ctx di = Z_EROFS_VLE_CLUSTER_TYPE_HEAD \<longrightarrow>
        z_erofs_map_blocks_iter ctx m mpg =
          map_case_HEAD ctx (m\<lparr>m_flags := insert EROFS_MAP_ZIPPED (m_flags m)\<rparr>)
            mp di lcn (m_la m) ofs_rem logical_cluster_ofs \<and>
        (logical_cluster_ofs \<le> ofs_rem \<longrightarrow>
           (case z_erofs_map_blocks_iter ctx m mpg of (err, m', p) \<Rightarrow>
              err = None \<and> EROFS_MAP_MAPPED \<in> m_flags m' \<and> EROFS_MAP_ZIPPED \<in> m_flags m'))) \<and>
     (vle_cluster_type ctx di = Z_EROFS_VLE_CLUSTER_TYPE_PLAIN \<and>
      (huawei_extension ctx \<longrightarrow>
         vle_huawei_compat_previous_clusters (clustersize_of ctx) di = 0) \<longrightarrow>
        z_erofs_map_blocks_iter ctx m mpg =
          map_case_HEAD ctx
            (m\<lparr>m_flags := (if logical_cluster_ofs \<le> ofs_rem
                             then m_flags m - {EROFS_MAP_ZIPPED}
                             else insert EROFS_MAP_ZIPPED (m_flags m))\<rparr>)
            mp di lcn (m_la m) ofs_rem logical_cluster_ofs \<and>
        (logical_cluster_ofs \<le> ofs_rem \<longrightarrow>
           (case z_erofs_map_blocks_iter ctx m mpg of (err, m', p) \<Rightarrow>
              err = None \<and> EROFS_MAP_MAPPED \<in> m_flags m' \<and> EROFS_MAP_ZIPPED \<notin> m_flags m')) \<and>
        (ofs_rem < logical_cluster_ofs \<longrightarrow>
           z_erofs_map_blocks_iter ctx m mpg =
             (if lcn = 0
              then (Some EIO, m\<lparr>m_flags := insert EROFS_MAP_ZIPPED (m_flags m)\<rparr>, Some mp)
              else map_nonhead ctx (m\<lparr>m_flags := insert EROFS_MAP_ZIPPED (m_flags m)\<rparr>) mp
                     (lcn - 1)
                     ((ucast lcn * ucast (clustersize_of ctx)) OR ucast logical_cluster_ofs)))) \<and>
     (vle_cluster_type ctx di = Z_EROFS_VLE_CLUSTER_TYPE_PLAIN \<and> huawei_extension ctx \<and>
      vle_huawei_compat_previous_clusters (clustersize_of ctx) di \<noteq> 0 \<longrightarrow>
        z_erofs_map_blocks_iter ctx m mpg =
          map_nonhead ctx
            (m\<lparr>m_flags := (if logical_cluster_ofs \<le> ofs_rem
                             then m_flags m - {EROFS_MAP_ZIPPED}
                             else insert EROFS_MAP_ZIPPED (m_flags m))\<rparr>)
            mp (lcn - 1) ((ucast lcn + 1) * ucast (clustersize_of ctx)))"
proof (intro conjI impI)
  assume t: "vle_cluster_type ctx di = Z_EROFS_VLE_CLUSTER_TYPE_HEAD"
  show h: "z_erofs_map_blocks_iter ctx m mpg =
          map_case_HEAD ctx (m\<lparr>m_flags := insert EROFS_MAP_ZIPPED (m_flags m)\<rparr>)
            mp di lcn (m_la m) ofs_rem logical_cluster_ofs"
    using initial_HEAD_unfold [OF assms(1,2,3)] t assms(4-7) by simp
  assume "logical_cluster_ofs \<le> ofs_rem"
  from map_case_HEAD_hit [OF this, where ctx = ctx and mp = mp and di = di and lcn = lcn
      and ofs = "m_la m" and ?m0.0 = "m\<lparr>m_flags := insert EROFS_MAP_ZIPPED (m_flags m)\<rparr>"]
  show "case z_erofs_map_blocks_iter ctx m mpg of (err, m', p) \<Rightarrow>
              err = None \<and> EROFS_MAP_MAPPED \<in> m_flags m' \<and> EROFS_MAP_ZIPPED \<in> m_flags m'"
    unfolding h by (auto split: prod.splits)
next
  assume t: "vle_cluster_type ctx di = Z_EROFS_VLE_CLUSTER_TYPE_PLAIN \<and>
      (huawei_extension ctx \<longrightarrow>
         vle_huawei_compat_previous_clusters (clustersize_of ctx) di = 0)"
  show h: "z_erofs_map_blocks_iter ctx m mpg =
          map_case_HEAD ctx
            (m\<lparr>m_flags := (if logical_cluster_ofs \<le> ofs_rem
                             then m_flags m - {EROFS_MAP_ZIPPED}
                             else insert EROFS_MAP_ZIPPED (m_flags m))\<rparr>)
            mp di lcn (m_la m) ofs_rem logical_cluster_ofs"
    using initial_PLAIN_unfold [OF assms(1,2,3)] t assms(4-7) by simp
  {
    assume le: "logical_cluster_ofs \<le> ofs_rem"
    from map_case_HEAD_hit [OF this, where ctx = ctx and mp = mp and di = di and lcn = lcn
        and ofs = "m_la m" and ?m0.0 = "m\<lparr>m_flags := m_flags m - {EROFS_MAP_ZIPPED}\<rparr>"]
    show "case z_erofs_map_blocks_iter ctx m mpg of (err, m', p) \<Rightarrow>
              err = None \<and> EROFS_MAP_MAPPED \<in> m_flags m' \<and> EROFS_MAP_ZIPPED \<notin> m_flags m'"
      unfolding h using le by (auto split: prod.splits)
  }
  {
    assume lt: "ofs_rem < logical_cluster_ofs"
    then have "\<not> logical_cluster_ofs \<le> ofs_rem" by (simp add: not_le)
    then show "z_erofs_map_blocks_iter ctx m mpg =
             (if lcn = 0
              then (Some EIO, m\<lparr>m_flags := insert EROFS_MAP_ZIPPED (m_flags m)\<rparr>, Some mp)
              else map_nonhead ctx (m\<lparr>m_flags := insert EROFS_MAP_ZIPPED (m_flags m)\<rparr>) mp
                     (lcn - 1)
                     ((ucast lcn * ucast (clustersize_of ctx)) OR ucast logical_cluster_ofs))"
      unfolding h using map_case_HEAD_before [OF lt] by simp
  }
next
  assume t: "vle_cluster_type ctx di = Z_EROFS_VLE_CLUSTER_TYPE_PLAIN \<and> huawei_extension ctx \<and>
      vle_huawei_compat_previous_clusters (clustersize_of ctx) di \<noteq> 0"
  then show "z_erofs_map_blocks_iter ctx m mpg =
          map_nonhead ctx
            (m\<lparr>m_flags := (if logical_cluster_ofs \<le> ofs_rem
                             then m_flags m - {EROFS_MAP_ZIPPED}
                             else insert EROFS_MAP_ZIPPED (m_flags m))\<rparr>)
            mp (lcn - 1) ((ucast lcn + 1) * ucast (clustersize_of ctx))"
    using initial_PLAIN_compat_unfold [OF assms(1,2,3)] assms(4-7) by simp
qed


theorem plain_record_toggles_zipped_witness:
  "m_llen (initial_map 4296) = 0 \<and>
   m_la (initial_map 4296) < i_size (index_ctx False 20000 plain_chain) \<and>
   vle_cluster_type (index_ctx False 20000 plain_chain)
     (record_at (index_ctx False 20000 plain_chain) (index_page plain_chain) 1) =
     Z_EROFS_VLE_CLUSTER_TYPE_PLAIN \<and>
   (100 :: 32 word) \<le> requested_ofs_rem (index_ctx False 20000 plain_chain) (initial_map 4296) \<and>
   (case z_erofs_map_blocks_iter (index_ctx False 20000 plain_chain) (initial_map 4296) None of
      (err, m', p) \<Rightarrow>
        err = None \<and> EROFS_MAP_MAPPED \<in> m_flags m' \<and> EROFS_MAP_ZIPPED \<notin> m_flags m') \<and>
   huawei_extension (index_ctx True 20000 compat_plain_chain) \<and>
   vle_cluster_type (index_ctx True 20000 compat_plain_chain)
     (record_at (index_ctx True 20000 compat_plain_chain) (index_page compat_plain_chain) 1) =
     Z_EROFS_VLE_CLUSTER_TYPE_PLAIN \<and>
   vle_huawei_compat_previous_clusters (clustersize_of (index_ctx True 20000 compat_plain_chain))
     (record_at (index_ctx True 20000 compat_plain_chain) (index_page compat_plain_chain) 1) = 16 \<and>
   z_erofs_map_blocks_iter (index_ctx True 20000 compat_plain_chain) (initial_map 4106) None =
     map_nonhead (index_ctx True 20000 compat_plain_chain) (initial_map 4106)
       (index_page compat_plain_chain) 0 8192"
proof -
  let ?c = "index_ctx False 20000 plain_chain" and ?p = "index_page plain_chain"
  let ?m = "initial_map 4296"
  let ?d = "index_ctx True 20000 compat_plain_chain" and ?q = "index_page compat_plain_chain"
  let ?n = "initial_map 4106"
  have lcn': "requested_lcn ?d ?n = 1"
    by (simp add: requested_lcn_def initial_map_def index_ctx_def drop_bit_eq_div)
  have rem': "requested_ofs_rem ?d ?n = 10"
    by (simp add: requested_ofs_rem_def initial_map_def index_ctx_def clustersize_of_def)
  have di': "record_at ?d ?q 1 = di_PLAIN 1 0 8"
    by (simp add: resolver_eval record_at_def compat_plain_chain_def)
  have b1: "m_llen ?n = 0" and b2: "m_la ?n < i_size ?d"
    by (simp_all add: initial_map_def index_ctx_def)
  have b3: "map_meta_page ?d None (vle_extent_blkaddr ?d (requested_lcn ?d ?n)) = Inr ?q"
    unfolding lcn' by (simp add: resolver_eval)
  have b4: "di_PLAIN 1 0 8 = record_at ?d ?q (requested_lcn ?d ?n)"
    unfolding lcn' di' ..
  have b5: "(0 :: 32 word) = ucast (di_clusterofs (di_PLAIN 1 0 8))"
    by (simp add: di_PLAIN_def)
  have b6: "(10 :: 32 word) = requested_ofs_rem ?d ?n"
    unfolding rem' ..
  have b7: "(1 :: 32 word) = requested_lcn ?d ?n"
    unfolding lcn' ..
  have ty': "vle_cluster_type ?d (di_PLAIN 1 0 8) = Z_EROFS_VLE_CLUSTER_TYPE_PLAIN"
    by (simp add: resolver_eval)
  have on: "huawei_extension ?d"
    by (simp add: index_ctx_def)
  have cnt: "vle_huawei_compat_previous_clusters (clustersize_of ?d) (di_PLAIN 1 0 8) = 16"
    by (simp add: resolver_eval)
  then have cnt0: "vle_huawei_compat_previous_clusters (clustersize_of ?d) (di_PLAIN 1 0 8) \<noteq> 0"
    by simp
  note walk = plain_record_toggles_zipped [OF b1 b2 b3 b4 b5 b6 b7, THEN conjunct2,
      THEN conjunct2, THEN mp, OF conjI [OF ty' conjI [OF on cnt0]]]
  have size: "clustersize_of ?d = 4096"
    by (simp add: clustersize_of_def index_ctx_def)
  have same: "(initial_map 4106)\<lparr>m_flags := m_flags (initial_map 4106) - {EROFS_MAP_ZIPPED}\<rparr>
      = initial_map 4106"
    by (simp add: initial_map_def)
  have compat: "z_erofs_map_blocks_iter ?d ?n None = map_nonhead ?d ?n ?q 0 8192"
    using walk by (simp add: size same)
  have lcn: "requested_lcn ?c ?m = 1"
    by (simp add: requested_lcn_def initial_map_def index_ctx_def drop_bit_eq_div)
  have rem: "requested_ofs_rem ?c ?m = 200"
    by (simp add: requested_ofs_rem_def initial_map_def index_ctx_def clustersize_of_def)
  have di: "record_at ?c ?p 1 = di_PLAIN 0 100 8"
    by (simp add: resolver_eval record_at_def plain_chain_def)
  have a1: "m_llen ?m = 0" and a2: "m_la ?m < i_size ?c"
    by (simp_all add: initial_map_def index_ctx_def)
  have a3: "map_meta_page ?c None (vle_extent_blkaddr ?c (requested_lcn ?c ?m)) = Inr ?p"
    unfolding lcn by (simp add: resolver_eval)
  have a4: "di_PLAIN 0 100 8 = record_at ?c ?p (requested_lcn ?c ?m)"
    unfolding lcn di ..
  have a5: "(100 :: 32 word) = ucast (di_clusterofs (di_PLAIN 0 100 8))"
    by (simp add: di_PLAIN_def)
  have a6: "(200 :: 32 word) = requested_ofs_rem ?c ?m"
    unfolding rem ..
  have ty: "vle_cluster_type ?c (di_PLAIN 0 100 8) = Z_EROFS_VLE_CLUSTER_TYPE_PLAIN"
    by (simp add: resolver_eval)
  have ext: "huawei_extension ?c \<longrightarrow>
      vle_huawei_compat_previous_clusters (clustersize_of ?c) (di_PLAIN 0 100 8) = 0"
    by (simp add: index_ctx_def)
  have le: "(100 :: 32 word) \<le> 200" by simp
  note all = plain_record_toggles_zipped [OF a1 a2 a3 a4 a5 a6 refl]
  note plain = all [THEN conjunct2, THEN conjunct1, THEN mp, OF conjI [OF ty ext]]
  note hit = plain [THEN conjunct2, THEN conjunct1, THEN mp, OF le]
  show ?thesis
    using a1 a2 ty hit on ty' cnt compat by (simp add: di rem di')
qed

text \<open>
  Claim C7 as stated speaks of every PLAIN record. With the compatibility extension
  compiled in, a PLAIN record that packs a nonzero count of previous clusters goes to the
  walk backward whatever the remainder is. Here the remainder (10) is at or after the
  record's clusterofs (0), the walk finds the plain cluster 0 and toggles the flag back:
  the mapping starts at offset 0 and is marked compressed, as the mapping is that the
  same request gets from a HEAD record.
\<close>

theorem plain_record_toggles_zipped_counterexample:
  "vle_cluster_type (index_ctx True 20000 compat_plain_chain)
     (record_at (index_ctx True 20000 compat_plain_chain) (index_page compat_plain_chain) 1) =
     Z_EROFS_VLE_CLUSTER_TYPE_PLAIN \<and>
   requested_lcn (index_ctx True 20000 compat_plain_chain) (initial_map 4106) = 1 \<and>
   requested_ofs_rem (index_ctx True 20000 compat_plain_chain) (initial_map 4106) = 10 \<and>
   di_clusterofs
     (record_at (index_ctx True 20000 compat_plain_chain) (index_page compat_plain_chain) 1) = 0 \<and>
   z_erofs_map_blocks_iter (index_ctx True 20000 compat_plain_chain) (initial_map 4106) None =
     (None,
      \<lparr>m_pa = 28672, m_la = 0, m_plen = 4096, m_llen = 8192,
       m_flags = {EROFS_MAP_MAPPED, EROFS_MAP_ZIPPED}\<rparr>,
      Some (index_page compat_plain_chain)) \<and>
   z_erofs_map_blocks_iter (index_ctx True 20000 plain_head_chain) (initial_map 4106) None =
     (None,
      \<lparr>m_pa = 32768, m_la = 4096, m_plen = 4096, m_llen = 4096,
       m_flags = {EROFS_MAP_MAPPED, EROFS_MAP_ZIPPED}\<rparr>,
      Some (index_page plain_head_chain))"
  by (simp add: resolver_eval record_at_def requested_lcn_def requested_ofs_rem_def
      compat_plain_chain_def plain_head_chain_def drop_bit_eq_div insert_commute)

section \<open>Properties of the claim protocol\<close>

lemma observe_from:
  assumes "observe sched v = (w, sched')"
  shows "set sched' \<subseteq> set sched" and "w = v \<or> Some w \<in> set sched"
  using assms by (cases "(sched, v)" rule: observe.cases; auto)+

lemma claim_outcome_retry:
  assumes "claim_outcome grp sched' (s\<lparr>grp_next := v\<rparr>) r"
    and "set sched' \<subseteq> set sched" and "v = grp_next s \<or> Some v \<in> set sched"
  shows "claim_outcome grp sched s r"
  using assms
  by (auto simp add: claim_outcome_def split: prod.splits z_erofs_vle_work_role.splits)

lemma try_to_claim_unfold:
  assumes "observe sched (grp_next s) = (v1, sched1)"
    and "observe sched1 v1 = (v2, sched2)"
    and "observe sched2 v2 = (v4, sched4)"
  shows "try_to_claim_workgroup grp sched s =
     (if v1 = Z_EROFS_VLE_WORKGRP_NIL then
        (if v2 \<noteq> Z_EROFS_VLE_WORKGRP_NIL
         then try_to_claim_workgroup grp sched2 (s\<lparr>grp_next := v2\<rparr>)
         else (Z_EROFS_VLE_WORK_PRIMARY_FOLLOWED,
               s\<lparr>grp_next := owned_head s, owned_head := WORKGRP grp, hosted := True\<rparr>))
      else if v2 = Z_EROFS_VLE_WORKGRP_TAIL then
        (if v4 \<noteq> Z_EROFS_VLE_WORKGRP_TAIL
         then try_to_claim_workgroup grp sched4 (s\<lparr>grp_next := v4\<rparr>)
         else (Z_EROFS_VLE_WORK_PRIMARY_TERMINAL,
               s\<lparr>grp_next := owned_head s, owned_head := Z_EROFS_VLE_WORKGRP_TAIL\<rparr>))
      else (Z_EROFS_VLE_WORK_PRIMARY, s\<lparr>grp_next := v2\<rparr>))"
  using assms by (subst try_to_claim_workgroup.simps) auto

lemma observe_length:
  assumes "observe sched v = (w, sched')"
  shows "length sched' \<le> length sched" and "w \<noteq> v \<Longrightarrow> length sched' < length sched"
  using assms by (cases "(sched, v)" rule: observe.cases; auto)+

lemma try_to_claim_outcome:
  "claim_outcome grp sched s (try_to_claim_workgroup grp sched s)"
proof (induction "length sched" arbitrary: sched s rule: less_induct)
  case less
  obtain v1 sched1 where o1: "observe sched (grp_next s) = (v1, sched1)"
    by (cases "observe sched (grp_next s)")
  obtain v2 sched2 where o2: "observe sched1 v1 = (v2, sched2)"
    by (cases "observe sched1 v1")
  obtain v4 sched4 where o4: "observe sched2 v2 = (v4, sched4)"
    by (cases "observe sched2 v2")
  note u = try_to_claim_unfold [OF o1 o2 o4, of grp]
  note f1 = observe_from [OF o1] and f2 = observe_from [OF o2] and f4 = observe_from [OF o4]
  note l1 = observe_length [OF o1] and l2 = observe_length [OF o2] and l4 = observe_length [OF o4]
  have sub2: "set sched2 \<subseteq> set sched" and sub4: "set sched4 \<subseteq> set sched"
    using f1(1) f2(1) f4(1) by auto
  have from1: "v1 = grp_next s \<or> Some v1 \<in> set sched"
    using f1(2) .
  have from2: "v2 = grp_next s \<or> Some v2 \<in> set sched"
    using f1 f2 by auto
  have from4: "v4 = grp_next s \<or> Some v4 \<in> set sched"
    using f1 f2 f4 by auto
  consider (followed) "v1 = Z_EROFS_VLE_WORKGRP_NIL" "v2 = Z_EROFS_VLE_WORKGRP_NIL"
    | (retry_nil) "v1 = Z_EROFS_VLE_WORKGRP_NIL" "v2 \<noteq> Z_EROFS_VLE_WORKGRP_NIL"
    | (terminal) "v1 \<noteq> Z_EROFS_VLE_WORKGRP_NIL" "v2 = Z_EROFS_VLE_WORKGRP_TAIL"
        "v4 = Z_EROFS_VLE_WORKGRP_TAIL"
    | (retry_tail) "v1 \<noteq> Z_EROFS_VLE_WORKGRP_NIL" "v2 = Z_EROFS_VLE_WORKGRP_TAIL"
        "v4 \<noteq> Z_EROFS_VLE_WORKGRP_TAIL"
    | (primary) "v1 \<noteq> Z_EROFS_VLE_WORKGRP_NIL" "v2 \<noteq> Z_EROFS_VLE_WORKGRP_TAIL"
    by blast
  then show ?case
  proof cases
    case followed
    then show ?thesis
      using from1 by (auto simp add: u claim_outcome_def)
  next
    case retry_nil
    then have "length sched2 < length sched"
      using l1(1) l2(2) by simp
    then have "claim_outcome grp sched2 (s\<lparr>grp_next := v2\<rparr>)
                 (try_to_claim_workgroup grp sched2 (s\<lparr>grp_next := v2\<rparr>))"
      by (rule less.hyps)
    then have "claim_outcome grp sched s (try_to_claim_workgroup grp sched2 (s\<lparr>grp_next := v2\<rparr>))"
      using sub2 from2 by (rule claim_outcome_retry)
    with retry_nil show ?thesis
      by (simp add: u)
  next
    case terminal
    then show ?thesis
      using from2 by (auto simp add: u claim_outcome_def)
  next
    case retry_tail
    then have "length sched4 < length sched"
      using l1(1) l2(1) l4(2) by simp
    then have "claim_outcome grp sched4 (s\<lparr>grp_next := v4\<rparr>)
                 (try_to_claim_workgroup grp sched4 (s\<lparr>grp_next := v4\<rparr>))"
      by (rule less.hyps)
    then have "claim_outcome grp sched s (try_to_claim_workgroup grp sched4 (s\<lparr>grp_next := v4\<rparr>))"
      using sub4 from4 by (rule claim_outcome_retry)
    with retry_tail show ?thesis
      by (simp add: u)
  next
    case primary
    then show ?thesis
      using from2 by (auto simp add: u claim_outcome_def)
  qed
qed

lemma try_to_claim_alone:
  "try_to_claim_workgroup grp [] s =
     (if grp_next s = Z_EROFS_VLE_WORKGRP_NIL then
        (Z_EROFS_VLE_WORK_PRIMARY_FOLLOWED,
         s\<lparr>grp_next := owned_head s, owned_head := WORKGRP grp, hosted := True\<rparr>)
      else if grp_next s = Z_EROFS_VLE_WORKGRP_TAIL then
        (Z_EROFS_VLE_WORK_PRIMARY_TERMINAL,
         s\<lparr>grp_next := owned_head s, owned_head := Z_EROFS_VLE_WORKGRP_TAIL\<rparr>)
      else (Z_EROFS_VLE_WORK_PRIMARY, s))"
  by (subst try_to_claim_workgroup.simps) simp


text \<open>
  Claim C4. Whatever other threads do to \<open>grp->next\<close> meanwhile, a claim attempt ends in
  one of three ways. PRIMARY_FOLLOWED: a \<open>cmpxchg\<close> found NIL and stored the caller's
  \<open>owned_head\<close> into \<open>next\<close>, \<open>owned_head\<close> is now this workgroup and \<open>hosted\<close> is true.
  PRIMARY_TERMINAL: a \<open>cmpxchg\<close> found TAIL and stored \<open>owned_head\<close> into \<open>next\<close>,
  \<open>owned_head\<close> is now TAIL and \<open>hosted\<close> is as it was. PRIMARY: nothing was stored:
  \<open>owned_head\<close> and \<open>hosted\<close> are as they were and \<open>next\<close> holds what it held or what
  another thread stored. SECONDARY never comes out. Left alone, the attempt is decided by
  \<open>next\<close>: NIL gives PRIMARY_FOLLOWED, TAIL gives PRIMARY_TERMINAL, anything else gives
  PRIMARY with the state untouched.
\<close>

theorem claim_attempt_roles:
  "(case try_to_claim_workgroup grp sched s of
      (Z_EROFS_VLE_WORK_PRIMARY_FOLLOWED, s') \<Rightarrow>
        (grp_next s = Z_EROFS_VLE_WORKGRP_NIL \<or> Some Z_EROFS_VLE_WORKGRP_NIL \<in> set sched) \<and>
        grp_next s' = owned_head s \<and> owned_head s' = WORKGRP grp \<and> hosted s'
    | (Z_EROFS_VLE_WORK_PRIMARY_TERMINAL, s') \<Rightarrow>
        (grp_next s = Z_EROFS_VLE_WORKGRP_TAIL \<or> Some Z_EROFS_VLE_WORKGRP_TAIL \<in> set sched) \<and>
        grp_next s' = owned_head s \<and> owned_head s' = Z_EROFS_VLE_WORKGRP_TAIL \<and>
        hosted s' = hosted s
    | (Z_EROFS_VLE_WORK_PRIMARY, s') \<Rightarrow>
        grp_next s' \<noteq> Z_EROFS_VLE_WORKGRP_TAIL \<and>
        (grp_next s' = grp_next s \<or> Some (grp_next s') \<in> set sched) \<and>
        owned_head s' = owned_head s \<and> hosted s' = hosted s
    | (Z_EROFS_VLE_WORK_SECONDARY, s') \<Rightarrow> False) \<and>
   try_to_claim_workgroup grp [] s =
     (if grp_next s = Z_EROFS_VLE_WORKGRP_NIL then
        (Z_EROFS_VLE_WORK_PRIMARY_FOLLOWED,
         s\<lparr>grp_next := owned_head s, owned_head := WORKGRP grp, hosted := True\<rparr>)
      else if grp_next s = Z_EROFS_VLE_WORKGRP_TAIL then
        (Z_EROFS_VLE_WORK_PRIMARY_TERMINAL,
         s\<lparr>grp_next := owned_head s, owned_head := Z_EROFS_VLE_WORKGRP_TAIL\<rparr>)
      else (Z_EROFS_VLE_WORK_PRIMARY, s))"
  using try_to_claim_outcome [of grp sched s] try_to_claim_alone [of grp s]
  unfolding claim_outcome_def by (rule conjI)

theorem claim_attempt_roles_witness:
  "try_to_claim_workgroup 5 raced_schedule unclaimed =
     (Z_EROFS_VLE_WORK_PRIMARY_TERMINAL,
      \<lparr>grp_next = WORKGRP 3, owned_head = Z_EROFS_VLE_WORKGRP_TAIL, hosted = False\<rparr>) \<and>
   try_to_claim_workgroup 5 [] unclaimed =
     (Z_EROFS_VLE_WORK_PRIMARY_FOLLOWED,
      \<lparr>grp_next = WORKGRP 3, owned_head = WORKGRP 5, hosted = True\<rparr>)"
proof -
  have run: "try_to_claim_workgroup 5 raced_schedule unclaimed =
     (Z_EROFS_VLE_WORK_PRIMARY_TERMINAL,
      \<lparr>grp_next = WORKGRP 3, owned_head = Z_EROFS_VLE_WORKGRP_TAIL, hosted = False\<rparr>)"
    by (simp add: try_to_claim_workgroup.simps raced_schedule_def unclaimed_def)
  have nil: "grp_next unclaimed = Z_EROFS_VLE_WORKGRP_NIL"
    by (simp add: unclaimed_def)
  from claim_attempt_roles [where grp = 5 and sched = "[]" and s = unclaimed, THEN conjunct2]
  have alone: "try_to_claim_workgroup 5 [] unclaimed =
     (Z_EROFS_VLE_WORK_PRIMARY_FOLLOWED,
      \<lparr>grp_next = WORKGRP 3, owned_head = WORKGRP 5, hosted = True\<rparr>)"
    by (simp add: nil) (simp add: unclaimed_def)
  show ?thesis
    using run alone by (rule conjI)
qed

section \<open>Properties of reclaim and of the recorded length\<close>

lemma free_all_slots_locked:
  "\<exists>pg. Some pg \<in> set slots \<and> PageLocked (ps pg) \<Longrightarrow>
   fst (free_all_cached_pages_slots slots ps)"
proof (induction slots ps rule: free_all_cached_pages_slots.induct)
  case (1 ps)
  then show ?case by simp
next
  case (2 slots ps)
  then show ?case by (auto split: prod.splits)
next
  case (3 pg slots ps)
  show ?case
  proof (cases "PageLocked (ps pg)")
    case True
    then show ?thesis by simp
  next
    case False
    define ps1 where "ps1 = ps(pg := (ps pg)\<lparr>page_private := 0, PagePrivate := False,
                                      page_count := page_count (ps pg) - 1\<rparr>)"
    have same: "PageLocked (ps1 q) = PageLocked (ps q)" for q
      by (simp add: ps1_def)
    from "3.prems" False obtain q where "Some q \<in> set slots" "PageLocked (ps q)"
      by auto
    then have "\<exists>q. Some q \<in> set slots \<and> PageLocked (ps1 q)"
      using same by auto
    with "3.IH" [OF False ps1_def] have "fst (free_all_cached_pages_slots slots ps1)" .
    with False show ?thesis
      by (auto simp add: ps1_def Let_def split: prod.splits)
  qed
qed

text \<open>
  Claim C6. A reclaim attempt on a workgroup whose reference count is not 1: the freeze
  fails, \<open>erofs_try_to_free_cached_page\<close> returns 0 (busy), and the workgroup with its
  slots and the page with its private word, flags and reference count are what they
  were. \<open>erofs_try_to_free_all_cached_pages\<close> returns \<open>-EBUSY\<close> without waiting when the
  work's mutex is held, then with nothing changed, and when the lock of a page in one of
  the slots is held, then with the mutex released again.
\<close>

theorem reclaim_busy_without_mutation:
  "(obj_refcount grp \<noteq> 1 \<longrightarrow>
      erofs_workgroup_try_to_freeze grp 1 = (False, grp) \<and>
      erofs_try_to_free_cached_page grp pg p = (0, grp, p)) \<and>
   (work_lock grp \<longrightarrow>
      erofs_try_to_free_all_cached_pages grp ps = (Some EBUSY, grp, ps)) \<and>
   (\<not> work_lock grp \<and> (\<exists>q. Some q \<in> set (compressed_pages grp) \<and> PageLocked (ps q)) \<longrightarrow>
      (case erofs_try_to_free_all_cached_pages grp ps of
         (err, grp', ps') \<Rightarrow> err = Some EBUSY \<and> \<not> work_lock grp'))"
proof (intro conjI impI)
  assume "obj_refcount grp \<noteq> 1"
  then show "erofs_workgroup_try_to_freeze grp 1 = (False, grp)"
    and "erofs_try_to_free_cached_page grp pg p = (0, grp, p)"
    by (simp_all add: erofs_try_to_free_cached_page_def erofs_workgroup_try_to_freeze_def)
next
  assume "work_lock grp"
  then show "erofs_try_to_free_all_cached_pages grp ps = (Some EBUSY, grp, ps)"
    by (simp add: erofs_try_to_free_all_cached_pages_def)
next
  assume a: "\<not> work_lock grp \<and> (\<exists>q. Some q \<in> set (compressed_pages grp) \<and> PageLocked (ps q))"
  then have "fst (free_all_cached_pages_slots (compressed_pages grp) ps)"
    by (intro free_all_slots_locked) simp
  with a show "case erofs_try_to_free_all_cached_pages grp ps of
         (err, grp', ps') \<Rightarrow> err = Some EBUSY \<and> \<not> work_lock grp'"
    by (auto simp add: erofs_try_to_free_all_cached_pages_def split: prod.splits)
qed

theorem reclaim_busy_without_mutation_witness:
  "obj_refcount busy_grp \<noteq> 1 \<and>
   erofs_workgroup_try_to_freeze busy_grp 1 = (False, busy_grp) \<and>
   erofs_try_to_free_cached_page busy_grp 11 cached_page = (0, busy_grp, cached_page) \<and>
   work_lock (busy_grp\<lparr>work_lock := True\<rparr>) \<and>
   erofs_try_to_free_all_cached_pages (busy_grp\<lparr>work_lock := True\<rparr>) (\<lambda>a. cached_page) =
     (Some EBUSY, busy_grp\<lparr>work_lock := True\<rparr>, (\<lambda>a. cached_page)) \<and>
   fst (erofs_try_to_free_all_cached_pages busy_grp (\<lambda>a. cached_page\<lparr>PageLocked := True\<rparr>)) =
     Some EBUSY"
proof -
  have ne: "obj_refcount busy_grp \<noteq> 1"
    by (simp add: busy_grp_def)
  have lk: "work_lock (busy_grp\<lparr>work_lock := True\<rparr>)"
    by simp
  have pl: "\<not> work_lock busy_grp \<and>
      (\<exists>q. Some q \<in> set (compressed_pages busy_grp) \<and>
           PageLocked ((\<lambda>a. cached_page\<lparr>PageLocked := True\<rparr>) q))"
    by (simp add: busy_grp_def)
  note t1 = reclaim_busy_without_mutation
    [where grp = busy_grp and pg = 11 and p = cached_page and ps = "\<lambda>a. cached_page",
      THEN conjunct1, THEN mp, OF ne]
  note t2 = reclaim_busy_without_mutation
    [where grp = "busy_grp\<lparr>work_lock := True\<rparr>" and ps = "\<lambda>a. cached_page",
      THEN conjunct2, THEN conjunct1, THEN mp, OF lk]
  note t3 = reclaim_busy_without_mutation
    [where grp = busy_grp and ps = "\<lambda>a. cached_page\<lparr>PageLocked := True\<rparr>",
      THEN conjunct2, THEN conjunct2, THEN mp, OF pl]
  from t3 have t3': "fst (erofs_try_to_free_all_cached_pages busy_grp
      (\<lambda>a. cached_page\<lparr>PageLocked := True\<rparr>)) = Some EBUSY"
    by (auto split: prod.splits)
  show ?thesis
    using ne t1 lk t2 t3' by simp
qed


lemma fits_32:
  fixes x :: "64 word"
  assumes "x < 2 ^ 32"
  shows "unat (ucast x :: 32 word) = unat x"
proof -
  have "unat x < 2 ^ 32"
    using assms by (simp add: word_less_nat_alt)
  then show ?thesis
    by (simp add: unsigned_ucast_eq take_bit_nat_eq_self)
qed

lemma widen_32: "unat (ucast (y :: 32 word) :: 64 word) = unat y"
proof -
  have "unat y < 2 ^ 32"
    using unsigned_less [of y, where ?'a = nat] by simp
  then have "unat y < 2 ^ 64"
    by simp
  then show ?thesis
    by (simp add: unsigned_ucast_eq take_bit_nat_eq_self)
qed

lemma llen_unfold:
  assumes "observe sched grp_llen = (orig_llen, sched1)"
    and "observe sched1 orig_llen = (found, sched2)"
  shows "work_iter_begin_llen sched grp_llen map_llen =
     (if ucast orig_llen < map_llen then
        (if orig_llen \<noteq> found then work_iter_begin_llen sched2 found map_llen
         else LLEN_STORED orig_llen (ucast map_llen))
      else LLEN_KEPT orig_llen)"
  using assms by (subst work_iter_begin_llen.simps) auto

lemma llen_alone:
  "work_iter_begin_llen [] grp_llen map_llen =
     (if ucast grp_llen < map_llen then LLEN_STORED grp_llen (ucast map_llen)
      else LLEN_KEPT grp_llen)"
  by (subst work_iter_begin_llen.simps) simp

text \<open>
  The loop under any schedule of other threads. It stores at most once, its own mapping's
  length cut to 32 bits, and only by a \<open>cmpxchg\<close> over a value that it has compared and
  found smaller than the mapping's length; when it stores nothing, the value it read
  last is not smaller than the mapping's length. The value it replaces or keeps is the
  one it started on or one that another thread stored.
\<close>

lemma llen_stores_over_smaller:
  "case work_iter_begin_llen sched grp_llen map_llen of
     LLEN_KEPT v \<Rightarrow> map_llen \<le> ucast v \<and> (v = grp_llen \<or> Some v \<in> set sched)
   | LLEN_STORED old new \<Rightarrow>
       ucast old < map_llen \<and> new = ucast map_llen \<and> (old = grp_llen \<or> Some old \<in> set sched)"
proof (induction "length sched" arbitrary: sched grp_llen rule: less_induct)
  case less
  obtain orig_llen sched1 where o1: "observe sched grp_llen = (orig_llen, sched1)"
    by (cases "observe sched grp_llen")
  obtain found sched2 where o2: "observe sched1 orig_llen = (found, sched2)"
    by (cases "observe sched1 orig_llen")
  note u = llen_unfold [OF o1 o2, of map_llen]
  note l1 = observe_length [OF o1] and l2 = observe_length [OF o2]
  note f1 = observe_from [OF o1] and f2 = observe_from [OF o2]
  consider (keep) "\<not> ucast orig_llen < map_llen"
    | (store) "ucast orig_llen < map_llen" "orig_llen = found"
    | (again) "ucast orig_llen < map_llen" "orig_llen \<noteq> found"
    by blast
  then show ?case
  proof cases
    case keep
    then have "work_iter_begin_llen sched grp_llen map_llen = LLEN_KEPT orig_llen"
      by (simp add: u)
    with keep f1(2) show ?thesis by (simp add: not_less)
  next
    case store
    then have "work_iter_begin_llen sched grp_llen map_llen =
        LLEN_STORED orig_llen (ucast map_llen)"
      by (simp add: u)
    with store f1(2) show ?thesis by simp
  next
    case again
    then have shorter: "length sched2 < length sched"
      using l1(1) l2(2) by auto
    have same: "work_iter_begin_llen sched grp_llen map_llen =
        work_iter_begin_llen sched2 found map_llen"
      using again by (simp add: u)
    have "Some found \<in> set sched"
      using again(2) f1 f2 by auto
    moreover have "set sched2 \<subseteq> set sched"
      using f1 f2 by auto
    ultimately show ?thesis
      using less.hyps [OF shorter, of found] unfolding same
      by (auto split: llen_outcome.splits)
  qed
qed

text \<open>
  For a mapping shorter than \<open>2^32\<close> bytes nothing is lost in the store: under any
  schedule the loop either keeps a record that covers the mapping's length or replaces a
  smaller record by the mapping's length.
\<close>

lemma llen_raised_below_4G:
  assumes "map_llen < 2 ^ 32"
  shows "case work_iter_begin_llen sched grp_llen map_llen of
     LLEN_KEPT v \<Rightarrow> ucast map_llen \<le> v
   | LLEN_STORED old new \<Rightarrow> old < new \<and> ucast new = map_llen"
proof -
  have wide: "(ucast (ucast map_llen :: 32 word) :: 64 word) = map_llen"
  proof -
    have "unat (ucast (ucast map_llen :: 32 word) :: 64 word) = unat map_llen"
      using fits_32 [OF assms] by (simp add: widen_32)
    then show ?thesis
      by (simp add: word_unat_eq_iff)
  qed
  have less: "(ucast v < map_llen) = (v < ucast map_llen)" for v :: "32 word"
    using fits_32 [OF assms] by (simp add: word_less_nat_alt widen_32)
  have le: "(map_llen \<le> ucast v) = (ucast map_llen \<le> v)" for v :: "32 word"
    using fits_32 [OF assms] by (simp add: word_le_nat_alt widen_32)
  show ?thesis
    using llen_stores_over_smaller [where sched = sched and grp_llen = grp_llen and map_llen = map_llen]
    by (auto simp add: wide less le split: llen_outcome.splits)
qed

text \<open>
  Claim C10. The record is meant to go up only: the code's comment on the loop reads
  ``increase workgroup llen if needed'', and for lengths below \<open>2^32\<close> that is what
  the loop does. But the record is 32 bits wide and the mapping's length 64. In the inode
  of the long extent a read of byte 4196 resolves to a mapping of 8192 bytes and
  registers the workgroup of block 7 with that length. A later read of byte
  \<open>2^32 + 100\<close> resolves to a mapping of the same extent, \<open>2^32 + 4096\<close> bytes long, and
  joins the workgroup: the loop finds 8192 smaller on 64 bits and stores the length cut
  to 32 bits, which is 4096. The record has gone down. In the same way a workgroup
  created for the longer mapping records 4096.
\<close>

theorem llen_store_cut_to_32_bits:
  "z_erofs_map_blocks_iter long_extent_ctx (initial_map 4196) None =
     (None, near_map, Some (long_extent_page 1)) \<and>
   z_erofs_map_blocks_iter long_extent_ctx (initial_map 4294967396) None =
     (None, far_map, Some (long_extent_page 1)) \<and>
   erofs_blknr long_extent_ctx (m_pa near_map) = 7 \<and>
   erofs_blknr long_extent_ctx (m_pa far_map) = 7 \<and>
   (case z_erofs_vle_work_register register_args near_map of
      REGISTERED grp role h oh \<Rightarrow> llen grp = 8192
    | REGISTER_ERR e \<Rightarrow> False
    | REGISTER_BUG \<Rightarrow> False) \<and>
   m_llen far_map = 4294967296 + 4096 \<and>
   ucast (8192 :: 32 word) < m_llen far_map \<and>
   work_iter_begin_llen [] 8192 (m_llen far_map) = LLEN_STORED 8192 4096 \<and>
   llen_after (work_iter_begin_llen [] 8192 (m_llen far_map)) < 8192 \<and>
   (case z_erofs_vle_work_register register_args far_map of
      REGISTERED grp role h oh \<Rightarrow> llen grp = 4096
    | REGISTER_ERR e \<Rightarrow> False
    | REGISTER_BUG \<Rightarrow> False)"
proof -
  note long_eval = vle_get_logical_extent_head.simps head_meta_page_def map_meta_page_def
    vle_extent_blkaddr_def vle_extent_blkoff_def vle_extent_ofs_def erofs_blknr_def
    erofs_blkoff_def blknr_to_addr_def vle_cluster_type_def cluster_type_numbering_def
    vle_decompressed_index_clusterofs_def di_u_delta0_def di_u_blkaddr_def head_case_HEAD_def
    clustersize_of_def map_exact_hitted_def map_nonhead_def z_erofs_map_blocks_iter_def Let_def
    di_HEAD_def di_NONHEAD_def initial_map_def long_extent_ctx_def long_extent_page_def
    long_extent_record_def drop_bit_eq_div insert_commute
  have near: "z_erofs_map_blocks_iter long_extent_ctx (initial_map 4196) None =
     (None, near_map, Some (long_extent_page 1))"
    by (simp add: long_eval near_map_def cong: if_cong)
  have far: "z_erofs_map_blocks_iter long_extent_ctx (initial_map 4294967396) None =
     (None, far_map, Some (long_extent_page 1))"
    by (simp add: long_eval far_map_def cong: if_cong)
  have rest: "erofs_blknr long_extent_ctx (m_pa near_map) = 7 \<and>
   erofs_blknr long_extent_ctx (m_pa far_map) = 7 \<and>
   (case z_erofs_vle_work_register register_args near_map of
      REGISTERED grp role h oh \<Rightarrow> llen grp = 8192
    | REGISTER_ERR e \<Rightarrow> False
    | REGISTER_BUG \<Rightarrow> False) \<and>
   m_llen far_map = 4294967296 + 4096 \<and>
   ucast (8192 :: 32 word) < m_llen far_map \<and>
   work_iter_begin_llen [] 8192 (m_llen far_map) = LLEN_STORED 8192 4096 \<and>
   llen_after (work_iter_begin_llen [] 8192 (m_llen far_map)) < 8192 \<and>
   (case z_erofs_vle_work_register register_args far_map of
      REGISTERED grp role h oh \<Rightarrow> llen grp = 4096
    | REGISTER_ERR e \<Rightarrow> False
    | REGISTER_BUG \<Rightarrow> False)"
    by (simp add: llen_alone z_erofs_vle_work_register_def register_args_def near_map_def
        far_map_def erofs_blknr_def long_extent_ctx_def)
  from near far rest show ?thesis
    by blast
qed
section \<open>Properties of the decompression pass\<close>

lemma scan_err:
  assumes "unzip_scan_compressed mngd slots ps (pages, sp, ov, err) = Some (pages', sp', ov', err')"
    and "err = Some EIO \<or>
         (mngd \<and> (\<exists>pg. Some pg \<in> set slots \<and> mapping (ps pg) = MNGD_MAPPING \<and>
                        \<not> PageUptodate (ps pg)))"
  shows "err' = Some EIO"
  using assms
proof (induction slots arbitrary: pages sp ov err)
  case Nil
  then show ?case by simp
next
  case (Cons slot slots)
  show ?case
  proof (cases slot)
    case None
    with Cons.prems show ?thesis by simp
  next
    case (Some pg)
    show ?thesis
    proof (cases "z_erofs_is_stagingpage (ps pg)")
      case True
      then have "mapping (ps pg) \<noteq> MNGD_MAPPING"
        by (simp add: z_erofs_is_stagingpage_def)
      with Cons.prems Some True show ?thesis
        by (intro Cons.IH [of pages sp ov err]) auto
    next
      case False
      show ?thesis
      proof (cases "mngd \<and> mapping (ps pg) = MNGD_MAPPING")
        case True
        with Cons.prems Some False show ?thesis
          by (intro Cons.IH [of pages sp ov "if \<not> PageUptodate (ps pg) then Some EIO else err"])
             auto
      next
        case nm: False
        with Cons.prems Some False show ?thesis
          by (intro Cons.IH [of "pages[online_index (ps pg) := Some pg]" "sp + 1" True err])
             (auto simp add: Let_def split: if_splits)
      qed
    qed
  qed
qed

lemma fill_pagevec_holds:
  assumes "unzip_fill_pagevec vec ps pages pool = Some (pages', pool')"
  shows "(\<forall>q. Some q \<in> set pages \<longrightarrow> Some q \<in> set pages') \<and>
         (\<forall>(pg, t) \<in> set vec. \<not> z_erofs_is_stagingpage (ps pg) \<longrightarrow> Some pg \<in> set pages')"
  using assms
proof (induction vec ps pages pool rule: unzip_fill_pagevec.induct)
  case (1 ps pages pool)
  then show ?case by simp
next
  case (2 pg page_type vec ps pages pool)
  show ?case
  proof (cases "z_erofs_is_stagingpage (ps pg)")
    case True
    with 2 show ?thesis by simp
  next
    case False
    define pagenr where
      "pagenr = (if page_type = Z_EROFS_VLE_PAGE_TYPE_HEAD then 0 else online_index (ps pg))"
    from "2.prems" False have ok: "pagenr < length pages" "pages ! pagenr = None"
      and rec: "unzip_fill_pagevec vec ps (pages[pagenr := Some pg]) pool = Some (pages', pool')"
      by (auto simp add: pagenr_def Let_def split: if_splits)
    from "2.IH"(2) [OF False pagenr_def _ _ rec] ok
    have ih: "(\<forall>q. Some q \<in> set (pages[pagenr := Some pg]) \<longrightarrow> Some q \<in> set pages') \<and>
         (\<forall>(pg, t) \<in> set vec. \<not> z_erofs_is_stagingpage (ps pg) \<longrightarrow> Some pg \<in> set pages')"
      by simp
    have new: "Some pg \<in> set (pages[pagenr := Some pg])"
      using ok(1) by (simp add: set_update_memI)
    have old: "Some q \<in> set (pages[pagenr := Some pg])" if "Some q \<in> set pages" for q
    proof -
      from that obtain i where i: "i < length pages" "pages ! i = Some q"
        by (auto simp add: in_set_conv_nth)
      with ok have "i \<noteq> pagenr" by auto
      with i have "(pages[pagenr := Some pg]) ! i = Some q" by simp
      with i(1) show ?thesis
        by (metis length_list_update nth_mem)
    qed
    from ih new old show ?thesis by auto
  qed
qed

lemma update_free_place:
  assumes "pagenr < length pages" and "pages ! pagenr = None"
  shows "Some pg \<in> set (pages[pagenr := Some pg])"
    and "Some q \<in> set pages \<Longrightarrow> Some q \<in> set (pages[pagenr := Some pg])"
proof -
  show "Some pg \<in> set (pages[pagenr := Some pg])"
    using assms(1) by (simp add: set_update_memI)
  assume "Some q \<in> set pages"
  then obtain i where i: "i < length pages" "pages ! i = Some q"
    by (auto simp add: in_set_conv_nth)
  with assms have "i \<noteq> pagenr" by auto
  with i have "(pages[pagenr := Some pg]) ! i = Some q" by simp
  with i(1) show "Some q \<in> set (pages[pagenr := Some pg])"
    by (metis length_list_update nth_mem)
qed

lemma scan_compressed_holds:
  assumes "unzip_scan_compressed mngd slots ps (pages, sp, ov, err) = Some (pages', sp', ov', err')"
  shows "(\<forall>q. Some q \<in> set pages \<longrightarrow> Some q \<in> set pages') \<and>
         (\<forall>pg. Some pg \<in> set slots \<and> \<not> z_erofs_is_stagingpage (ps pg) \<and>
               \<not> (mngd \<and> mapping (ps pg) = MNGD_MAPPING) \<longrightarrow> Some pg \<in> set pages')"
  using assms
proof (induction slots arbitrary: pages sp ov err)
  case Nil
  then show ?case by simp
next
  case (Cons slot slots)
  show ?case
  proof (cases slot)
    case None
    with Cons.prems show ?thesis by simp
  next
    case (Some pg)
    consider (staging) "z_erofs_is_stagingpage (ps pg)"
      | (managed) "\<not> z_erofs_is_stagingpage (ps pg)" "mngd \<and> mapping (ps pg) = MNGD_MAPPING"
      | (reused) "\<not> z_erofs_is_stagingpage (ps pg)" "\<not> (mngd \<and> mapping (ps pg) = MNGD_MAPPING)"
      by blast
    then show ?thesis
    proof cases
      case staging
      with Cons.prems Some
      have "unzip_scan_compressed mngd slots ps (pages, sp, ov, err) = Some (pages', sp', ov', err')"
        by simp
      from Cons.IH [OF this] staging Some show ?thesis by auto
    next
      case managed
      with Cons.prems Some
      have "unzip_scan_compressed mngd slots ps
              (pages, sp, ov, if \<not> PageUptodate (ps pg) then Some EIO else err) =
            Some (pages', sp', ov', err')"
        by simp
      from Cons.IH [OF this] managed Some show ?thesis by auto
    next
      case reused
      with Cons.prems Some have ok: "online_index (ps pg) < length pages"
          "pages ! online_index (ps pg) = None"
        and rec: "unzip_scan_compressed mngd slots ps
              (pages[online_index (ps pg) := Some pg], sp + 1, True, err) =
            Some (pages', sp', ov', err')"
        by (auto simp add: Let_def split: if_splits)
      note upd = update_free_place [OF ok, where pg = pg]
      from Cons.IH [OF rec] upd Some reused show ?thesis by auto
    qed
  qed
qed

lemma endio_keeps:
  "mapping (z_erofs_onlinepage_endio p) = mapping p"
  "PageError (z_erofs_onlinepage_endio p) = PageError p"
  by (simp_all add: z_erofs_onlinepage_endio_def Let_def)

lemma end_pages_keeps:
  assumes "unzip_end_pages pages err ps pool trace = (ps', pool', trace')"
  shows "(\<forall>x. mapping (ps' x) = mapping (ps x)) \<and>
         (\<forall>x. PageError (ps x) \<longrightarrow> PageError (ps' x)) \<and>
         set trace \<subseteq> set trace'"
  using assms
proof (induction pages err ps pool trace rule: unzip_end_pages.induct)
  case (1 err ps pool trace)
  then show ?case by simp
next
  case (2 pages err ps pool trace)
  then show ?case by simp
next
  case (3 pg pages err ps pool trace)
  show ?case
  proof (cases "z_erofs_is_stagingpage (ps pg)")
    case True
    with 3 show ?thesis by simp
  next
    case False
    define p1 where "p1 = (if err \<noteq> None then (ps pg)\<lparr>PageError := True\<rparr> else ps pg)"
    define ps1 where "ps1 = ps(pg := z_erofs_onlinepage_endio p1)"
    from "3.prems" False
    have rec: "unzip_end_pages pages err ps1 pool (trace @ [ENDIO pg]) = (ps', pool', trace')"
      by (simp add: p1_def ps1_def Let_def)
    from "3.IH"(2) [OF False p1_def rec [unfolded ps1_def]]
    have ih: "(\<forall>x. mapping (ps' x) = mapping (ps1 x)) \<and>
         (\<forall>x. PageError (ps1 x) \<longrightarrow> PageError (ps' x)) \<and>
         set (trace @ [ENDIO pg]) \<subseteq> set trace'"
      by (simp add: ps1_def)
    have m1: "mapping (ps1 x) = mapping (ps x)" for x
      by (simp add: ps1_def p1_def endio_keeps)
    have e1: "PageError (ps x) \<Longrightarrow> PageError (ps1 x)" for x
      by (auto simp add: ps1_def p1_def endio_keeps)
    from ih m1 e1 show ?thesis by auto
  qed
qed

lemma end_pages_ends:
  assumes "unzip_end_pages pages err ps pool trace = (ps', pool', trace')"
    and "Some q \<in> set pages" and "\<not> z_erofs_is_stagingpage (ps q)"
  shows "ENDIO q \<in> set trace' \<and> (err \<noteq> None \<longrightarrow> PageError (ps' q))"
  using assms
proof (induction pages err ps pool trace rule: unzip_end_pages.induct)
  case (1 err ps pool trace)
  then show ?case by simp
next
  case (2 pages err ps pool trace)
  then show ?case by simp
next
  case (3 pg pages err ps pool trace)
  show ?case
  proof (cases "z_erofs_is_stagingpage (ps pg)")
    case True
    with "3.prems" have "pg \<noteq> q" by auto
    with 3 True show ?thesis by simp
  next
    case False
    define p1 where "p1 = (if err \<noteq> None then (ps pg)\<lparr>PageError := True\<rparr> else ps pg)"
    define ps1 where "ps1 = ps(pg := z_erofs_onlinepage_endio p1)"
    from "3.prems" False
    have rec: "unzip_end_pages pages err ps1 pool (trace @ [ENDIO pg]) = (ps', pool', trace')"
      by (simp add: p1_def ps1_def Let_def)
    have st: "\<not> z_erofs_is_stagingpage (ps1 q)"
      using "3.prems"(3) by (auto simp add: ps1_def p1_def z_erofs_is_stagingpage_def endio_keeps)
    show ?thesis
    proof (cases "Some q \<in> set pages")
      case True
      from "3.IH"(2) [OF False p1_def rec [unfolded ps1_def] True] st
      show ?thesis by (simp add: ps1_def)
    next
      case nin: False
      with "3.prems" have "q = pg" by simp
      note k = end_pages_keeps [OF rec]
      have "ENDIO q \<in> set trace'"
        using k \<open>q = pg\<close> by auto
      moreover have "err \<noteq> None \<longrightarrow> PageError (ps1 q)"
        by (simp add: ps1_def p1_def \<open>q = pg\<close> endio_keeps)
      ultimately show ?thesis using k by auto
    qed
  qed
qed

lemma release_compressed_slots:
  "fst (unzip_release_compressed mngd slots ps pool) =
     map (\<lambda>slot. case slot of None \<Rightarrow> None
                 | Some pg \<Rightarrow> if mngd \<and> mapping (ps pg) = MNGD_MAPPING then Some pg else None) slots"
  by (induction mngd slots ps pool rule: unzip_release_compressed.induct)
     (auto split: prod.splits)

lemma end_pages_trace:
  assumes "unzip_end_pages pages err ps pool trace = (ps', pool', trace')"
  shows "set trace' \<subseteq> set trace \<union> range ENDIO"
  using assms
proof (induction pages err ps pool trace rule: unzip_end_pages.induct)
  case (1 err ps pool trace)
  then show ?case by simp
next
  case (2 pages err ps pool trace)
  then show ?case by simp
next
  case (3 pg pages err ps pool trace)
  show ?case
  proof (cases "z_erofs_is_stagingpage (ps pg)")
    case True
    with 3 show ?thesis by simp
  next
    case False
    define p1 where "p1 = (if err \<noteq> None then (ps pg)\<lparr>PageError := True\<rparr> else ps pg)"
    from "3.prems" False
    have rec: "unzip_end_pages pages err (ps(pg := z_erofs_onlinepage_endio p1)) pool
                 (trace @ [ENDIO pg]) = (ps', pool', trace')"
      by (simp add: p1_def Let_def)
    from "3.IH"(2) [OF False p1_def rec] show ?thesis by auto
  qed
qed

lemma fill_pagevec_gathers:
  assumes "unzip_fill_pagevec vec ps pages pool = Some (pages', pool')"
  shows "pool' = rev [pg. (pg, t) \<leftarrow> vec, z_erofs_is_stagingpage (ps pg)] @ pool \<and>
         (\<forall>q. Some q \<in> set pages' \<longrightarrow> Some q \<in> set pages \<or> \<not> z_erofs_is_stagingpage (ps q))"
  using assms
proof (induction vec ps pages pool rule: unzip_fill_pagevec.induct)
  case (1 ps pages pool)
  then show ?case by simp
next
  case (2 pg page_type vec ps pages pool)
  show ?case
  proof (cases "z_erofs_is_stagingpage (ps pg)")
    case True
    with 2 show ?thesis by simp
  next
    case False
    define pagenr where
      "pagenr = (if page_type = Z_EROFS_VLE_PAGE_TYPE_HEAD then 0 else online_index (ps pg))"
    from "2.prems" False have ok: "\<not> pagenr \<ge> length pages" "\<not> pages ! pagenr \<noteq> None"
      and rec: "unzip_fill_pagevec vec ps (pages[pagenr := Some pg]) pool = Some (pages', pool')"
      by (auto simp add: pagenr_def Let_def split: if_splits)
    have "set (pages[pagenr := Some pg]) \<subseteq> insert (Some pg) (set pages)"
      by (rule set_update_subset_insert)
    with "2.IH"(2) [OF False pagenr_def ok rec] False show ?thesis
      by auto
  qed
qed

lemma scan_compressed_sources:
  assumes "unzip_scan_compressed mngd slots ps (pages, sp, ov, err) = Some (pages', sp', ov', err')"
  shows "\<forall>q. Some q \<in> set pages' \<longrightarrow> Some q \<in> set pages \<or> \<not> z_erofs_is_stagingpage (ps q)"
  using assms
proof (induction slots arbitrary: pages sp ov err)
  case Nil
  then show ?case by simp
next
  case (Cons slot slots)
  show ?case
  proof (cases slot)
    case None
    with Cons.prems show ?thesis by simp
  next
    case (Some pg)
    consider (staging) "z_erofs_is_stagingpage (ps pg)"
      | (managed) "\<not> z_erofs_is_stagingpage (ps pg)" "mngd \<and> mapping (ps pg) = MNGD_MAPPING"
      | (reused) "\<not> z_erofs_is_stagingpage (ps pg)" "\<not> (mngd \<and> mapping (ps pg) = MNGD_MAPPING)"
      by blast
    then show ?thesis
    proof cases
      case staging
      with Cons.prems Some
      have "unzip_scan_compressed mngd slots ps (pages, sp, ov, err) = Some (pages', sp', ov', err')"
        by simp
      from Cons.IH [OF this] show ?thesis .
    next
      case managed
      with Cons.prems Some
      have "unzip_scan_compressed mngd slots ps
              (pages, sp, ov, if \<not> PageUptodate (ps pg) then Some EIO else err) =
            Some (pages', sp', ov', err')"
        by simp
      from Cons.IH [OF this] show ?thesis .
    next
      case reused
      with Cons.prems Some have
        rec: "unzip_scan_compressed mngd slots ps
              (pages[online_index (ps pg) := Some pg], sp + 1, True, err) =
            Some (pages', sp', ov', err')"
        by (auto simp add: Let_def split: if_splits)
      have "set (pages[online_index (ps pg) := Some pg]) \<subseteq> insert (Some pg) (set pages)"
        by (rule set_update_subset_insert)
      with Cons.IH [OF rec] reused show ?thesis by auto
    qed
  qed
qed

lemma release_compressed_pool:
  "snd (unzip_release_compressed mngd slots ps pool) =
     rev [pg. Some pg \<leftarrow> slots, z_erofs_is_stagingpage (ps pg)] @ pool"
  by (induction mngd slots ps pool rule: unzip_release_compressed.induct)
     (auto simp add: z_erofs_is_stagingpage_def split: prod.splits)

lemma end_pages_pool:
  assumes "unzip_end_pages pages err ps pool trace = (ps', pool', trace')"
    and "\<forall>q. Some q \<in> set pages \<longrightarrow> \<not> z_erofs_is_stagingpage (ps q)"
  shows "pool' = pool"
  using assms
proof (induction pages err ps pool trace rule: unzip_end_pages.induct)
  case (1 err ps pool trace)
  then show ?case by simp
next
  case (2 pages err ps pool trace)
  then show ?case by simp
next
  case (3 pg pages err ps pool trace)
  from "3.prems"(2) have ns: "\<not> z_erofs_is_stagingpage (ps pg)" by simp
  define p1 where "p1 = (if err \<noteq> None then (ps pg)\<lparr>PageError := True\<rparr> else ps pg)"
  define ps1 where "ps1 = ps(pg := z_erofs_onlinepage_endio p1)"
  from "3.prems" ns
  have rec: "unzip_end_pages pages err ps1 pool (trace @ [ENDIO pg]) = (ps', pool', trace')"
    by (simp add: p1_def ps1_def Let_def)
  have m1: "z_erofs_is_stagingpage (ps1 x) = z_erofs_is_stagingpage (ps x)" for x
    by (simp add: ps1_def p1_def z_erofs_is_stagingpage_def endio_keeps)
  have "\<forall>q. Some q \<in> set pages \<longrightarrow> \<not> z_erofs_is_stagingpage (ps1 q)"
    using "3.prems"(2) by (simp add: m1)
  from "3.IH"(2) [OF ns p1_def rec [unfolded ps1_def] this [unfolded ps1_def]]
  show ?case .
qed

lemma unzip_stages:
  assumes "z_erofs_vle_unzip env grp ps page_pool = UNZIP_DONE err grp' ps' pool' trace"
  obtains pages0 pool0 pages1 sparsemem_pages overlapped err0 pages2 ps2 pool2 trace2
    slots3 pool3
  where "unzip_fill_pagevec (work_pagevec grp) ps (replicate (work_nr_pages grp) None) page_pool =
           Some (pages0, pool0)"
    and "unzip_scan_compressed (has_managed_cache env) (compressed_pages grp) ps
           (pages0, work_vcnt grp, False, None) = Some (pages1, sparsemem_pages, overlapped, err0)"
    and "unzip_decompress env grp ps pool0 pages1 sparsemem_pages err0 =
           Some (err, pages2, ps2, pool2, trace2)"
    and "unzip_release_compressed (has_managed_cache env) (compressed_pages grp) ps2 pool2 =
           (slots3, pool3)"
    and "unzip_end_pages pages2 err ps2 pool3 trace2 = (ps', pool', trace)"
    and "compressed_pages grp' = slots3"
  using assms
  by (auto simp add: z_erofs_vle_unzip_def split: if_splits option.splits prod.splits)

lemma destination_pages_gathered:
  assumes "unzip_fill_pagevec (work_pagevec grp) ps pages page_pool = Some (pages0, pool0)"
    and "unzip_scan_compressed mngd (compressed_pages grp) ps (pages0, sp, ov, e) =
           Some (pages1, sp', ov', e')"
    and "q \<in> set (destination_pages mngd grp ps)"
  shows "Some q \<in> set pages1"
proof -
  note f = fill_pagevec_holds [OF assms(1)] and s = scan_compressed_holds [OF assms(2)]
  from assms(3) consider
    (vec) t where "(q, t) \<in> set (work_pagevec grp)" "\<not> z_erofs_is_stagingpage (ps q)"
    | (slot) "Some q \<in> set (compressed_pages grp)" "\<not> z_erofs_is_stagingpage (ps q)"
        "\<not> (mngd \<and> mapping (ps q) = MNGD_MAPPING)"
    by (auto simp add: destination_pages_def)
  then show ?thesis
  proof cases
    case vec
    with f have "Some q \<in> set pages0" by auto
    with s show ?thesis by auto
  next
    case slot
    with s show ?thesis by auto
  qed
qed

text \<open>
  Claim C8, as the code has it. The managed cache is compiled in and a compressed slot
  holds a page of the managed cache that is not up to date. A pass that runs to its end
  (no \<open>BUG_ON\<close> fires) returns \<open>-EIO\<close> and calls neither the plain copy nor a
  decompressor. Every slot that holds another page than one of the managed cache is
  cleared; the pages of the managed cache, the failed one among them, stay in their
  slots. The staging pages go back to the pool: the pool after the pass is the pool
  before it with the staging pages of the page vector and then those of the compressed
  slots put in front, each page once and nothing else. Every destination page gets the
  error flag and has its online I/O ended.
\<close>

theorem failed_input_skips_decompression:
  assumes "has_managed_cache env"
    and "Some bad \<in> set (compressed_pages grp)"
    and "mapping (ps bad) = MNGD_MAPPING" and "\<not> PageUptodate (ps bad)"
  shows "case z_erofs_vle_unzip env grp ps page_pool of
           UNZIP_BUG \<Rightarrow> True
         | UNZIP_DONE err grp' ps' pool' trace \<Rightarrow>
             err = Some EIO \<and>
             PLAIN_COPY \<notin> set trace \<and> UNZIP_FAST_PERCPU \<notin> set trace \<and>
             UNZIP_VMAP \<notin> set trace \<and>
             compressed_pages grp' =
               map (\<lambda>slot. case slot of
                              None \<Rightarrow> None
                            | Some pg \<Rightarrow> if mapping (ps pg) = MNGD_MAPPING then Some pg else None)
                   (compressed_pages grp) \<and>
             Some bad \<in> set (compressed_pages grp') \<and>
             pool' =
               rev [pg. Some pg \<leftarrow> compressed_pages grp, z_erofs_is_stagingpage (ps pg)] @
               rev [pg. (pg, t) \<leftarrow> work_pagevec grp, z_erofs_is_stagingpage (ps pg)] @
               page_pool \<and>
             (\<forall>q \<in> set (destination_pages True grp ps).
                PageError (ps' q) \<and> ENDIO q \<in> set trace)"
proof (cases "z_erofs_vle_unzip env grp ps page_pool")
  case UNZIP_BUG
  then show ?thesis by simp
next
  case (UNZIP_DONE err grp' ps' pool' trace)
  from UNZIP_DONE obtain pages0 pool0 pages1 sparsemem_pages overlapped err0 pages2 ps2 pool2
    trace2 slots3 pool3
  where fill: "unzip_fill_pagevec (work_pagevec grp) ps (replicate (work_nr_pages grp) None)
                 page_pool = Some (pages0, pool0)"
    and scan: "unzip_scan_compressed (has_managed_cache env) (compressed_pages grp) ps
           (pages0, work_vcnt grp, False, None) = Some (pages1, sparsemem_pages, overlapped, err0)"
    and dec: "unzip_decompress env grp ps pool0 pages1 sparsemem_pages err0 =
           Some (err, pages2, ps2, pool2, trace2)"
    and rel: "unzip_release_compressed (has_managed_cache env) (compressed_pages grp) ps2 pool2 =
           (slots3, pool3)"
    and endp: "unzip_end_pages pages2 err ps2 pool3 trace2 = (ps', pool', trace)"
    and slots: "compressed_pages grp' = slots3"
    by (rule unzip_stages)
  have err0: "err0 = Some EIO"
    using scan assms by (intro scan_err [OF scan]) auto
  with dec have same: "err = Some EIO" "pages2 = pages1" "ps2 = ps" "pool2 = pool0" "trace2 = []"
    by (simp_all add: unzip_decompress_def)
  have tr: "set trace \<subseteq> range ENDIO"
    using end_pages_trace [OF endp] same by simp
  have sl: "compressed_pages grp' =
               map (\<lambda>slot. case slot of
                              None \<Rightarrow> None
                            | Some pg \<Rightarrow> if mapping (ps pg) = MNGD_MAPPING then Some pg else None)
                   (compressed_pages grp)"
  proof -
    have "compressed_pages grp' =
            fst (unzip_release_compressed True (compressed_pages grp) ps pool0)"
      using rel slots same assms(1) by simp
    then show ?thesis
      by (auto simp add: release_compressed_slots split: option.splits)
  qed
  have kept: "Some bad \<in> set (compressed_pages grp')"
    unfolding sl using assms(2,3) by (force simp add: image_iff)
  have fin: "PageError (ps' q) \<and> ENDIO q \<in> set trace"
    if q: "q \<in> set (destination_pages True grp ps)" for q
  proof -
    have "Some q \<in> set pages1"
      using fill scan q assms(1) by (intro destination_pages_gathered [OF fill]) auto
    moreover have "\<not> z_erofs_is_stagingpage (ps q)"
      using q by (auto simp add: destination_pages_def)
    ultimately show ?thesis
      using end_pages_ends [OF endp, of q] same by simp
  qed
  have pl: "pool' =
      rev [pg. Some pg \<leftarrow> compressed_pages grp, z_erofs_is_stagingpage (ps pg)] @
      rev [pg. (pg, t) \<leftarrow> work_pagevec grp, z_erofs_is_stagingpage (ps pg)] @ page_pool"
  proof -
    note g = fill_pagevec_gathers [OF fill]
    have p0: "pool0 =
        rev [pg. (pg, t) \<leftarrow> work_pagevec grp, z_erofs_is_stagingpage (ps pg)] @ page_pool"
      using g by simp
    have none: "\<forall>q. Some q \<in> set pages0 \<longrightarrow> \<not> z_erofs_is_stagingpage (ps q)"
      using g by auto
    have "\<forall>q. Some q \<in> set pages1 \<longrightarrow> \<not> z_erofs_is_stagingpage (ps q)"
      using scan_compressed_sources [OF scan] none by blast
    then have "pool' = pool3"
      using end_pages_pool [OF endp] same by simp
    moreover have "pool3 =
        rev [pg. Some pg \<leftarrow> compressed_pages grp, z_erofs_is_stagingpage (ps pg)] @ pool0"
      using release_compressed_pool [of "has_managed_cache env" "compressed_pages grp" ps pool0]
        rel same by simp
    ultimately show ?thesis
      using p0 by simp
  qed
  from same(1) tr sl kept pl fin UNZIP_DONE show ?thesis
    by auto
qed

theorem failed_input_skips_decompression_witness:
  "has_managed_cache failed_env \<and> Some 11 \<in> set (compressed_pages failed_grp) \<and>
   mapping (failed_store 11) = MNGD_MAPPING \<and> \<not> PageUptodate (failed_store 11) \<and>
   destination_pages True failed_grp failed_store = [20, 21] \<and>
   (case z_erofs_vle_unzip failed_env failed_grp failed_store [] of
      UNZIP_DONE err grp' ps' pool' trace \<Rightarrow>
        err = Some EIO \<and> compressed_pages grp' = [Some 11, None] \<and> pool' = [30] \<and>
        trace = [ENDIO 20, ENDIO 21] \<and>
        PageError (ps' 20) \<and> \<not> PageLocked (ps' 20) \<and> PageError (ps' 21) \<and>
        \<not> PageLocked (ps' 21)
    | UNZIP_BUG \<Rightarrow> False)"
proof -
  have pre: "has_managed_cache failed_env" "Some 11 \<in> set (compressed_pages failed_grp)"
    "mapping (failed_store 11) = MNGD_MAPPING" "\<not> PageUptodate (failed_store 11)"
    by (simp_all add: failed_env_def failed_grp_def failed_store_def cached_page_def)
  have dest: "destination_pages True failed_grp failed_store = [20, 21]"
    by code_simp
  have run: "case z_erofs_vle_unzip failed_env failed_grp failed_store [] of
      UNZIP_DONE err grp' ps' pool' trace \<Rightarrow>
        compressed_pages grp' = [Some 11, None] \<and> pool' = [30] \<and>
        trace = [ENDIO 20, ENDIO 21] \<and> \<not> PageLocked (ps' 20) \<and> \<not> PageLocked (ps' 21)
    | UNZIP_BUG \<Rightarrow> False"
    by code_simp
  note inst = failed_input_skips_decompression
    [where env = failed_env and grp = failed_grp and ps = failed_store and bad = 11
       and page_pool = "[]", OF pre]
  show ?thesis
    using pre dest run inst
    by (cases "z_erofs_vle_unzip failed_env failed_grp failed_store []") simp_all
qed

text \<open>
  Claim C8 as stated has every compressed slot cleared and released, and the pass
  return. The pass leaves pages of the managed cache in their slots, the failed page
  among them: after the pass above the first slot still holds page 11, which is neither
  unlocked nor dropped by the pass. And a pass stops at a \<open>BUG_ON\<close> instead of
  returning when two entries of its page vector claim the same place: with both file
  pages entered as pages of type HEAD, the second finds place 0 taken.
\<close>

theorem failed_input_skips_decompression_counterexample:
  "mapping (failed_store 11) = MNGD_MAPPING \<and> \<not> PageUptodate (failed_store 11) \<and>
   compressed_pages failed_grp = [Some 11, Some 30] \<and>
   (case z_erofs_vle_unzip failed_env failed_grp failed_store [] of
      UNZIP_DONE err grp' ps' pool' trace \<Rightarrow>
        err = Some EIO \<and> compressed_pages grp' = [Some 11, None] \<and>
        page_count (ps' 11) = page_count (failed_store 11)
    | UNZIP_BUG \<Rightarrow> False) \<and>
   compressed_pages two_heads_grp = [Some 11, Some 30] \<and>
   (case z_erofs_vle_unzip failed_env two_heads_grp failed_store [] of
      UNZIP_DONE err grp' ps' pool' trace \<Rightarrow> False
    | UNZIP_BUG \<Rightarrow> True)"
  by code_simp

lemma fill_pagevec_pool:
  assumes "unzip_fill_pagevec vec ps pages pool = Some (pages', pool')"
  shows "set pool' \<subseteq> set pool \<union> {pg. z_erofs_is_stagingpage (ps pg)}"
  using assms
proof (induction vec ps pages pool rule: unzip_fill_pagevec.induct)
  case (1 ps pages pool)
  then show ?case by auto
next
  case (2 pg page_type vec ps pages pool)
  show ?case
  proof (cases "z_erofs_is_stagingpage (ps pg)")
    case True
    with 2 show ?thesis by auto
  next
    case False
    define pagenr where
      "pagenr = (if page_type = Z_EROFS_VLE_PAGE_TYPE_HEAD then 0 else online_index (ps pg))"
    from "2.prems" False have ok: "\<not> pagenr \<ge> length pages" "\<not> pages ! pagenr \<noteq> None"
      and rec: "unzip_fill_pagevec vec ps (pages[pagenr := Some pg]) pool = Some (pages', pool')"
      by (auto simp add: pagenr_def Let_def split: if_splits)
    from "2.IH"(2) [OF False pagenr_def ok rec] show ?thesis .
  qed
qed

lemma alloc_staging_keeps:
  assumes "unzip_alloc_staging pages ps pool fresh = (pages', ps', pool', fresh')"
  shows "(\<forall>q. Some q \<in> set pages \<longrightarrow> Some q \<in> set pages') \<and>
         (\<forall>x. x \<notin> set pool \<and> x \<notin> set fresh \<longrightarrow> ps' x = ps x)"
  using assms
proof (induction pages arbitrary: ps pool fresh pages' ps' pool' fresh')
  case Nil
  then show ?case by simp
next
  case (Cons slot pages)
  show ?case
  proof (cases slot)
    case (Some pg)
    with Cons.prems obtain rest where
      rec: "unzip_alloc_staging pages ps pool fresh = (rest, ps', pool', fresh')"
      and res: "pages' = Some pg # rest"
      by (auto split: prod.splits)
    from Cons.IH [OF rec] Some res show ?thesis by auto
  next
    case None
    define pick where "pick = (if pool \<noteq> [] then (Some (last pool), butlast pool, fresh)
            else (case fresh of [] \<Rightarrow> (None, pool, fresh)
                  | pg # fresh' \<Rightarrow> (Some pg, pool, fresh')))"
    obtain got pool1 fresh1 where pk: "pick = (got, pool1, fresh1)"
      by (cases pick)
    have sub: "set pool1 \<subseteq> set pool" "set fresh1 \<subseteq> set fresh"
      and got: "\<And>pg. got = Some pg \<Longrightarrow> pg \<in> set pool \<or> pg \<in> set fresh"
      using pk
      by (auto simp add: pick_def split: if_splits list.splits dest: in_set_butlastD)
    show ?thesis
    proof (cases got)
      case gn: None
      with Cons.prems None pk obtain rest where
        rec: "unzip_alloc_staging pages ps pool1 fresh1 = (rest, ps', pool', fresh')"
        and res: "pages' = None # rest"
        by (auto simp add: pick_def split: prod.splits)
      from Cons.IH [OF rec] None res sub show ?thesis by auto
    next
      case (Some pg)
      with Cons.prems None pk obtain rest where
        rec: "unzip_alloc_staging pages (ps(pg := (ps pg)\<lparr>mapping := Z_EROFS_MAPPING_STAGING\<rparr>))
                pool1 fresh1 = (rest, ps', pool', fresh')"
        and res: "pages' = Some pg # rest"
        by (auto simp add: pick_def split: prod.splits)
      from Cons.IH [OF rec] None res sub got [OF Some] show ?thesis by auto
    qed
  qed
qed

lemma decompress_keeps:
  assumes "unzip_decompress env grp ps pool0 pages1 sp err0 = Some (err, pages2, ps2, pool2, trace2)"
  shows "(\<forall>q. Some q \<in> set pages1 \<longrightarrow> Some q \<in> set pages2) \<and>
         (\<forall>x. x \<notin> set pool0 \<and> x \<notin> set (fresh_pages env) \<longrightarrow> ps2 x = ps x)"
proof (cases "err0 = None \<and> fmt grp \<noteq> Z_EROFS_VLE_WORKGRP_FMT_PLAIN \<and>
              z_erofs_vle_unzip_fast_percpu env = Some ENOTSUPP \<and>
              \<not> sp \<ge> work_nr_pages grp")
  case False
  with assms have "pages2 = pages1 \<and> ps2 = ps"
    by (auto simp add: unzip_decompress_def Let_def split: if_splits prod.splits)
  then show ?thesis by simp
next
  case True
  obtain pages' ps' pool' fresh' where
    al: "unzip_alloc_staging pages1 ps pool0 (fresh_pages env) = (pages', ps', pool', fresh')"
    by (cases "unzip_alloc_staging pages1 ps pool0 (fresh_pages env)")
  with assms True have "pages2 = pages' \<and> ps2 = ps'"
    by (auto simp add: unzip_decompress_def Let_def split: if_splits)
  with alloc_staging_keeps [OF al] show ?thesis by simp
qed

text \<open>
  What a pass does for its destination pages, whatever it returns. A pass that runs to
  its end ends the online I/O of every destination page it holds and, when it returns an
  error, has set the error flag of each; no destination page is left out. The pages of
  the pool and the pages the allocator hands out are not destination pages of the pass.
\<close>

lemma pass_ends_destination_pages:
  assumes "set page_pool \<inter> set (destination_pages (has_managed_cache env) grp ps) = {}"
    and "set (fresh_pages env) \<inter> set (destination_pages (has_managed_cache env) grp ps) = {}"
  shows "case z_erofs_vle_unzip env grp ps page_pool of
            UNZIP_BUG \<Rightarrow> True
          | UNZIP_DONE err grp' ps' pool' trace \<Rightarrow>
              (\<forall>q \<in> set (destination_pages (has_managed_cache env) grp ps).
                 ENDIO q \<in> set trace \<and> (err \<noteq> None \<longrightarrow> PageError (ps' q)))"
proof (cases "z_erofs_vle_unzip env grp ps page_pool")
  case UNZIP_BUG
  then show ?thesis by simp
next
  case (UNZIP_DONE err grp' ps' pool' trace)
  from UNZIP_DONE obtain pages0 pool0 pages1 sparsemem_pages overlapped err0 pages2 ps2 pool2
    trace2 slots3 pool3
  where fill: "unzip_fill_pagevec (work_pagevec grp) ps (replicate (work_nr_pages grp) None)
                 page_pool = Some (pages0, pool0)"
    and scan: "unzip_scan_compressed (has_managed_cache env) (compressed_pages grp) ps
           (pages0, work_vcnt grp, False, None) =
           Some (pages1, sparsemem_pages, overlapped, err0)"
    and dec: "unzip_decompress env grp ps pool0 pages1 sparsemem_pages err0 =
           Some (err, pages2, ps2, pool2, trace2)"
    and rel: "unzip_release_compressed (has_managed_cache env) (compressed_pages grp) ps2
           pool2 = (slots3, pool3)"
    and endp: "unzip_end_pages pages2 err ps2 pool3 trace2 = (ps', pool', trace)"
    by (rule unzip_stages)
  have fin: "ENDIO q \<in> set trace \<and> (err \<noteq> None \<longrightarrow> PageError (ps' q))"
    if q: "q \<in> set (destination_pages (has_managed_cache env) grp ps)" for q
  proof -
    have ns: "\<not> z_erofs_is_stagingpage (ps q)"
      using q by (auto simp add: destination_pages_def)
    have "q \<notin> set page_pool" and nf: "q \<notin> set (fresh_pages env)"
      using q assms by auto
    with ns fill_pagevec_pool [OF fill] have np: "q \<notin> set pool0"
      by auto
    note k = decompress_keeps [OF dec]
    have "Some q \<in> set pages1"
      using q by (rule destination_pages_gathered [OF fill scan])
    with k have "Some q \<in> set pages2" by simp
    moreover from k np nf have "ps2 q = ps q" by simp
    with ns have "\<not> z_erofs_is_stagingpage (ps2 q)" by simp
    ultimately show ?thesis
      by (rule end_pages_ends [OF endp])
  qed
  from fin UNZIP_DONE show ?thesis by simp
qed

section \<open>A read that fails after a part of the page was entered\<close>

end
